theory Spec2Isabelle
  imports Complex_Main
begin

section \<open>A versioned schema registry with a JSON validation engine\<close>

text \<open>
  The development embeds \<^verbatim>\<open>internal/schema/registry.go\<close>: the store
  \<^verbatim>\<open>SchemaRegistry\<close> with its operations \<^verbatim>\<open>Register\<close>,
  \<^verbatim>\<open>Get\<close>, \<^verbatim>\<open>GetVersion\<close>, \<^verbatim>\<open>GetVersions\<close>,
  \<^verbatim>\<open>Delete\<close>, \<^verbatim>\<open>SetCompatibility\<close>, and the validation path
  \<^verbatim>\<open>Validate\<close>, \<^verbatim>\<open>validateJSON\<close>, \<^verbatim>\<open>validateField\<close>.

  Conventions of the embedding:
  \<^item> Go's \<^verbatim>\<open>string\<close> and \<^verbatim>\<open>[]byte\<close> (\<^verbatim>\<open>json.RawMessage\<close>) are
    byte sequences, here \<^typ>\<open>string\<close>; the message literals of the source are
    UTF-8 encoded Korean text and are written byte by byte.
  \<^item> Go's \<^verbatim>\<open>int\<close> is \<^typ>\<open>int\<close>, without the wrap-around of the machine
    integer. The two counters of the store (\<^verbatim>\<open>nextID\<close>, \<^verbatim>\<open>Version\<close>)
    start at 1 and grow by at most one per call, so on a store reached from the
    empty one by fewer than \<open>2^63 - 1\<close> calls they lie in the range of a
    64-bit \<^verbatim>\<open>int\<close> and the code computes what the model does. The results
    on the counters are stated for stores reached from the empty one.
  \<^item> \<^verbatim>\<open>time.Time\<close> is an instant on the integer line; the value read by
    \<^verbatim>\<open>time.Now()\<close> is an argument of the operation that reads it.
  \<^item> Every exported operation holds the store's lock for all of its accesses to
    the maps, so an operation is one atomic step on the store: the store is
    passed in and the updated store is returned.
  \<^item> A Go \<^verbatim>\<open>error\<close> is a value of the datatype \<open>error\<close>; a failed
    single-value type assertion is the value \<open>Inl InterfaceConversion\<close>.
  \<^item> The packages \<^verbatim>\<open>encoding/json\<close> and \<^verbatim>\<open>fmt\<close> belong to the Go
    distribution, not to the repository; what the code needs from them is the
    parameter \<open>L\<close> of type \<open>jsonlib\<close>.
\<close>

subsection \<open>Data model\<close>

type_synonym SchemaType = string

definition SchemaTypeJSON :: SchemaType where
  "SchemaTypeJSON = ''json''"

definition SchemaTypeProtobuf :: SchemaType where
  "SchemaTypeProtobuf = ''protobuf''"

definition SchemaTypeAvro :: SchemaType where
  "SchemaTypeAvro = ''avro''"

type_synonym CompatibilityMode = string

definition CompatibilityNone :: CompatibilityMode where
  "CompatibilityNone = ''NONE''"

definition CompatibilityBackward :: CompatibilityMode where
  "CompatibilityBackward = ''BACKWARD''"

definition CompatibilityForward :: CompatibilityMode where
  "CompatibilityForward = ''FORWARD''"

definition CompatibilityFull :: CompatibilityMode where
  "CompatibilityFull = ''FULL''"

type_synonym Time = int

record SchemaInfo =
  ID :: int
  Name :: string
  Version :: int
  Type :: SchemaType
  Schema :: string
  Compatibility :: CompatibilityMode
  Description :: string
  CreatedAt :: Time
  UpdatedAt :: Time

text \<open>The fields of \<^verbatim>\<open>SchemaVersion\<close> carry the prefix \<open>sv_\<close>, those of
  \<^verbatim>\<open>RegisterOptions\<close> the prefix \<open>opt_\<close>: field names are global here.\<close>

record SchemaVersion =
  sv_Version :: int
  sv_Schema :: string
  sv_CreatedAt :: Time

record ValidationResult =
  Valid :: bool
  Errors :: "string list"
  Message :: string

record RegisterOptions =
  opt_Description :: string
  opt_Compatibility :: CompatibilityMode

text \<open>The store. The mutex has no field: see the conventions above.\<close>

record SchemaRegistry =
  schemas :: "string \<rightharpoonup> SchemaInfo"
  versions :: "string \<rightharpoonup> SchemaVersion list"
  nextID :: int
  defaultCompat :: CompatibilityMode

subsection \<open>Decoded JSON values and the library parameter\<close>

text \<open>
  What \<^verbatim>\<open>json.Unmarshal\<close> stores into an \<^verbatim>\<open>interface{}\<close>:
  \<^verbatim>\<open>nil\<close>, \<^verbatim>\<open>bool\<close>, \<^verbatim>\<open>float64\<close>, \<^verbatim>\<open>string\<close>,
  \<^verbatim>\<open>[]interface{}\<close> and \<^verbatim>\<open>map[string]interface{}\<close>. A decoded number is
  a finite \<^verbatim>\<open>float64\<close>, hence a rational, and \<open><\<close> on finite floats is
  \<open><\<close> on the rationals. A decoded object is the list of its entries, each
  key once, in the order in which a \<^verbatim>\<open>range\<close> loop visits them (Go leaves
  that order open, so it is part of the input).
\<close>

datatype jvalue =
    JNull
  | JBool bool
  | JNumber rat
  | JString string
  | JArray "jvalue list"
  | JObject "(string \<times> jvalue) list"

text \<open>
  \<open>json_Unmarshal\<close> decodes a byte sequence: \<open>Inl\<close> carries the text of the
  error for input that is not well-formed JSON. \<open>json_TypeError\<close> is the text
  of the \<^verbatim>\<open>UnmarshalTypeError\<close> raised when a decoded value does not fit a
  \<^verbatim>\<open>map[string]interface{}\<close>, and \<open>fmt_float64\<close> is how \<^verbatim>\<open>%v\<close>
  prints a \<^verbatim>\<open>float64\<close>.
\<close>

record jsonlib =
  json_Unmarshal :: "string \<Rightarrow> string + jvalue"
  json_TypeError :: "jvalue \<Rightarrow> string"
  fmt_float64 :: "rat \<Rightarrow> string"

text \<open>\<^verbatim>\<open>json.Unmarshal(data, &m)\<close> for a nil \<^verbatim>\<open>m\<close> of type
  \<^verbatim>\<open>map[string]interface{}\<close>: a JSON \<^verbatim>\<open>null\<close> leaves \<^verbatim>\<open>m\<close> nil
  without an error, and a nil map reads and iterates as the empty map.\<close>

definition Unmarshal_map :: "jsonlib \<Rightarrow> string \<Rightarrow> string + (string \<times> jvalue) list" where
  "Unmarshal_map L data =
     (case json_Unmarshal L data of
        Inl err \<Rightarrow> Inl err
      | Inr JNull \<Rightarrow> Inr []
      | Inr (JObject m) \<Rightarrow> Inr m
      | Inr v \<Rightarrow> Inl (json_TypeError L v))"

subsection \<open>Formatting\<close>

text \<open>\<^verbatim>\<open>%d\<close> of an \<^verbatim>\<open>int\<close>.\<close>

fun digits :: "nat \<Rightarrow> string" where
  "digits n =
     (if n < 10 then [''0123456789'' ! n]
      else digits (n div 10) @ [''0123456789'' ! (n mod 10)])"

declare digits.simps [simp del]

definition itoa :: "int \<Rightarrow> string" where
  "itoa i = (if i < 0 then ''-'' @ digits (nat (- i)) else digits (nat i))"

text \<open>The literal parts of the source's format strings, as UTF-8 bytes. In the
  order below they read: invalid JSON schema; schema not found; version not
  found; schema lookup failed; Protobuf validation is not supported yet; Avro
  validation is not supported yet; unsupported type; unknown schema type;
  unknown type; JSON parsing failed; invalid JSON format; schema parsing failed;
  invalid schema format; required field missing; (N) validation errors;
  validation succeeded; and the pieces of the per-field messages.\<close>

definition lit_invalid_json_schema :: string where
  "lit_invalid_json_schema =
     [CHR 0xEC, CHR 0x9E, CHR 0x98, CHR 0xEB, CHR 0xAA, CHR 0xBB, CHR 0xEB, CHR 0x90,
     CHR 0x9C] @ '' JSON '' @ [CHR 0xEC, CHR 0x8A, CHR 0xA4, CHR 0xED, CHR 0x82, CHR 0xA4,
     CHR 0xEB, CHR 0xA7, CHR 0x88] @ '': ''"

definition lit_schema_not_found :: string where
  "lit_schema_not_found =
     [CHR 0xEC, CHR 0x8A, CHR 0xA4, CHR 0xED, CHR 0x82, CHR 0xA4, CHR 0xEB, CHR 0xA7,
     CHR 0x88, CHR 0xEB, CHR 0xA5, CHR 0xBC] @ '' '' @ [CHR 0xEC, CHR 0xB0, CHR 0xBE,
     CHR 0xEC, CHR 0x9D, CHR 0x84] @ '' '' @ [CHR 0xEC, CHR 0x88, CHR 0x98] @ '' '' @
     [CHR 0xEC, CHR 0x97, CHR 0x86, CHR 0xEC, CHR 0x8A, CHR 0xB5, CHR 0xEB, CHR 0x8B,
     CHR 0x88, CHR 0xEB, CHR 0x8B, CHR 0xA4]"

definition lit_version_not_found :: string where
  "lit_version_not_found =
     [CHR 0xEB, CHR 0xB2, CHR 0x84, CHR 0xEC, CHR 0xA0, CHR 0x84, CHR 0xEC, CHR 0x9D,
     CHR 0x84] @ '' '' @ [CHR 0xEC, CHR 0xB0, CHR 0xBE, CHR 0xEC, CHR 0x9D, CHR 0x84] @
     '' '' @ [CHR 0xEC, CHR 0x88, CHR 0x98] @ '' '' @ [CHR 0xEC, CHR 0x97, CHR 0x86,
     CHR 0xEC, CHR 0x8A, CHR 0xB5, CHR 0xEB, CHR 0x8B, CHR 0x88, CHR 0xEB, CHR 0x8B,
     CHR 0xA4] @ '': ''"

definition lit_lookup_failed :: string where
  "lit_lookup_failed =
     [CHR 0xEC, CHR 0x8A, CHR 0xA4, CHR 0xED, CHR 0x82, CHR 0xA4, CHR 0xEB, CHR 0xA7,
     CHR 0x88] @ '' '' @ [CHR 0xEC, CHR 0xA1, CHR 0xB0, CHR 0xED, CHR 0x9A, CHR 0x8C] @
     '' '' @ [CHR 0xEC, CHR 0x8B, CHR 0xA4, CHR 0xED, CHR 0x8C, CHR 0xA8]"

definition lit_protobuf_unsupported :: string where
  "lit_protobuf_unsupported =
     ''Protobuf '' @ [CHR 0xEA, CHR 0xB2, CHR 0x80, CHR 0xEC, CHR 0xA6, CHR 0x9D, CHR 0xEC,
     CHR 0x9D, CHR 0x80] @ '' '' @ [CHR 0xEC, CHR 0x95, CHR 0x84, CHR 0xEC, CHR 0xA7,
     CHR 0x81] @ '' '' @ [CHR 0xEC, CHR 0xA7, CHR 0x80, CHR 0xEC, CHR 0x9B, CHR 0x90,
     CHR 0xED, CHR 0x95, CHR 0x98, CHR 0xEC, CHR 0xA7, CHR 0x80] @ '' '' @ [CHR 0xEC,
     CHR 0x95, CHR 0x8A, CHR 0xEC, CHR 0x8A, CHR 0xB5, CHR 0xEB, CHR 0x8B, CHR 0x88,
     CHR 0xEB, CHR 0x8B, CHR 0xA4]"

definition lit_avro_unsupported :: string where
  "lit_avro_unsupported =
     ''Avro '' @ [CHR 0xEA, CHR 0xB2, CHR 0x80, CHR 0xEC, CHR 0xA6, CHR 0x9D, CHR 0xEC,
     CHR 0x9D, CHR 0x80] @ '' '' @ [CHR 0xEC, CHR 0x95, CHR 0x84, CHR 0xEC, CHR 0xA7,
     CHR 0x81] @ '' '' @ [CHR 0xEC, CHR 0xA7, CHR 0x80, CHR 0xEC, CHR 0x9B, CHR 0x90,
     CHR 0xED, CHR 0x95, CHR 0x98, CHR 0xEC, CHR 0xA7, CHR 0x80] @ '' '' @ [CHR 0xEC,
     CHR 0x95, CHR 0x8A, CHR 0xEC, CHR 0x8A, CHR 0xB5, CHR 0xEB, CHR 0x8B, CHR 0x88,
     CHR 0xEB, CHR 0x8B, CHR 0xA4]"

definition lit_unsupported_type :: string where
  "lit_unsupported_type =
     [CHR 0xEB, CHR 0xAF, CHR 0xB8, CHR 0xEC, CHR 0xA7, CHR 0x80, CHR 0xEC, CHR 0x9B,
     CHR 0x90] @ '' '' @ [CHR 0xED, CHR 0x83, CHR 0x80, CHR 0xEC, CHR 0x9E, CHR 0x85]"

definition lit_unknown_schema_type :: string where
  "lit_unknown_schema_type =
     [CHR 0xEC, CHR 0x95, CHR 0x8C] @ '' '' @ [CHR 0xEC, CHR 0x88, CHR 0x98] @ '' '' @
     [CHR 0xEC, CHR 0x97, CHR 0x86, CHR 0xEB, CHR 0x8A, CHR 0x94] @ '' '' @ [CHR 0xEC,
     CHR 0x8A, CHR 0xA4, CHR 0xED, CHR 0x82, CHR 0xA4, CHR 0xEB, CHR 0xA7, CHR 0x88] @
     '' '' @ [CHR 0xED, CHR 0x83, CHR 0x80, CHR 0xEC, CHR 0x9E, CHR 0x85] @ '': ''"

definition lit_unknown_type :: string where
  "lit_unknown_type =
     [CHR 0xEC, CHR 0x95, CHR 0x8C] @ '' '' @ [CHR 0xEC, CHR 0x88, CHR 0x98] @ '' '' @
     [CHR 0xEC, CHR 0x97, CHR 0x86, CHR 0xEB, CHR 0x8A, CHR 0x94] @ '' '' @ [CHR 0xED,
     CHR 0x83, CHR 0x80, CHR 0xEC, CHR 0x9E, CHR 0x85]"

definition lit_json_parse_failed :: string where
  "lit_json_parse_failed =
     ''JSON '' @ [CHR 0xED, CHR 0x8C, CHR 0x8C, CHR 0xEC, CHR 0x8B, CHR 0xB1] @ '' '' @
     [CHR 0xEC, CHR 0x8B, CHR 0xA4, CHR 0xED, CHR 0x8C, CHR 0xA8] @ '': ''"

definition lit_bad_json_format :: string where
  "lit_bad_json_format =
     [CHR 0xEC, CHR 0x9E, CHR 0x98, CHR 0xEB, CHR 0xAA, CHR 0xBB, CHR 0xEB, CHR 0x90,
     CHR 0x9C] @ '' JSON '' @ [CHR 0xED, CHR 0x98, CHR 0x95, CHR 0xEC, CHR 0x8B, CHR 0x9D]"

definition lit_schema_parse_failed :: string where
  "lit_schema_parse_failed =
     [CHR 0xEC, CHR 0x8A, CHR 0xA4, CHR 0xED, CHR 0x82, CHR 0xA4, CHR 0xEB, CHR 0xA7,
     CHR 0x88] @ '' '' @ [CHR 0xED, CHR 0x8C, CHR 0x8C, CHR 0xEC, CHR 0x8B, CHR 0xB1] @
     '' '' @ [CHR 0xEC, CHR 0x8B, CHR 0xA4, CHR 0xED, CHR 0x8C, CHR 0xA8] @ '': ''"

definition lit_bad_schema_format :: string where
  "lit_bad_schema_format =
     [CHR 0xEC, CHR 0x9E, CHR 0x98, CHR 0xEB, CHR 0xAA, CHR 0xBB, CHR 0xEB, CHR 0x90,
     CHR 0x9C] @ '' '' @ [CHR 0xEC, CHR 0x8A, CHR 0xA4, CHR 0xED, CHR 0x82, CHR 0xA4,
     CHR 0xEB, CHR 0xA7, CHR 0x88] @ '' '' @ [CHR 0xED, CHR 0x98, CHR 0x95, CHR 0xEC,
     CHR 0x8B, CHR 0x9D]"

definition lit_required_missing :: string where
  "lit_required_missing =
     [CHR 0xED, CHR 0x95, CHR 0x84, CHR 0xEC, CHR 0x88, CHR 0x98] @ '' '' @ [CHR 0xED,
     CHR 0x95, CHR 0x84, CHR 0xEB, CHR 0x93, CHR 0x9C] @ '' '' @ [CHR 0xEB, CHR 0x88,
     CHR 0x84, CHR 0xEB, CHR 0x9D, CHR 0xBD] @ '': ''"

definition lit_n_errors :: string where
  "lit_n_errors =
     [CHR 0xEA, CHR 0xB0, CHR 0x9C, CHR 0xEC, CHR 0x9D, CHR 0x98] @ '' '' @ [CHR 0xEA,
     CHR 0xB2, CHR 0x80, CHR 0xEC, CHR 0xA6, CHR 0x9D] @ '' '' @ [CHR 0xEC, CHR 0x98,
     CHR 0xA4, CHR 0xEB, CHR 0xA5, CHR 0x98]"

definition lit_success :: string where
  "lit_success =
     [CHR 0xEA, CHR 0xB2, CHR 0x80, CHR 0xEC, CHR 0xA6, CHR 0x9D] @ '' '' @ [CHR 0xEC,
     CHR 0x84, CHR 0xB1, CHR 0xEA, CHR 0xB3, CHR 0xB5]"

definition lit_field :: string where
  "lit_field =
     [CHR 0xED, CHR 0x95, CHR 0x84, CHR 0xEB, CHR 0x93, CHR 0x9C] @ '' '' @ [CHR 0x27]"

definition lit_must_be_type :: string where
  "lit_must_be_type =
     '' '' @ [CHR 0xED, CHR 0x83, CHR 0x80, CHR 0xEC, CHR 0x9E, CHR 0x85, CHR 0xEC,
     CHR 0x9D, CHR 0xB4, CHR 0xEC, CHR 0x96, CHR 0xB4, CHR 0xEC, CHR 0x95, CHR 0xBC] @
     '' '' @ [CHR 0xED, CHR 0x95, CHR 0xA9, CHR 0xEB, CHR 0x8B, CHR 0x88, CHR 0xEB,
     CHR 0x8B, CHR 0xA4]"

definition lit_neun :: string where
  "lit_neun =
     [CHR 0x27, CHR 0xEB, CHR 0x8A, CHR 0x94] @ '' ''"

definition lit_value_of :: string where
  "lit_value_of =
     [CHR 0x27, CHR 0xEC, CHR 0x9D, CHR 0x98] @ '' '' @ [CHR 0xEA, CHR 0xB0, CHR 0x92] @
     '' '' @ [CHR 0x27]"

definition lit_not_allowed :: string where
  "lit_not_allowed =
     [CHR 0x27, CHR 0xEB, CHR 0x8A, CHR 0x94] @ '' '' @ [CHR 0xED, CHR 0x97, CHR 0x88,
     CHR 0xEC, CHR 0x9A, CHR 0xA9, CHR 0xEB, CHR 0x90, CHR 0x98, CHR 0xEC, CHR 0xA7,
     CHR 0x80] @ '' '' @ [CHR 0xEC, CHR 0x95, CHR 0x8A, CHR 0xEC, CHR 0x8A, CHR 0xB5,
     CHR 0xEB, CHR 0x8B, CHR 0x88, CHR 0xEB, CHR 0x8B, CHR 0xA4]"

definition lit_value_must :: string where
  "lit_value_must =
     [CHR 0x27, CHR 0xEC, CHR 0x9D, CHR 0x98] @ '' '' @ [CHR 0xEA, CHR 0xB0, CHR 0x92,
     CHR 0xEC, CHR 0x9D, CHR 0x80] @ '' ''"

definition lit_at_least :: string where
  "lit_at_least =
     '' '' @ [CHR 0xEC, CHR 0x9D, CHR 0xB4, CHR 0xEC, CHR 0x83, CHR 0x81, CHR 0xEC,
     CHR 0x9D, CHR 0xB4, CHR 0xEC, CHR 0x96, CHR 0xB4, CHR 0xEC, CHR 0x95, CHR 0xBC] @
     '' '' @ [CHR 0xED, CHR 0x95, CHR 0xA9, CHR 0xEB, CHR 0x8B, CHR 0x88, CHR 0xEB,
     CHR 0x8B, CHR 0xA4]"


subsection \<open>Errors\<close>

datatype error =
    InvalidDefinition string
  | NotFound string
  | VersionNotFound string int
  | NotFoundUnnamed

text \<open>\<open>Error e\<close> is \<^verbatim>\<open>err.Error()\<close>. \<open>InvalidDefinition\<close> wraps the
  decoder's error (\<^verbatim>\<open>%w\<close>), \<open>NotFound\<close> is the error of \<^verbatim>\<open>Get\<close>,
  \<^verbatim>\<open>GetVersion\<close>, \<^verbatim>\<open>GetVersions\<close> and \<^verbatim>\<open>Delete\<close> for an unknown
  name, \<open>NotFoundUnnamed\<close> the one of \<^verbatim>\<open>SetCompatibility\<close>.\<close>

fun Error :: "error \<Rightarrow> string" where
  "Error (InvalidDefinition err) = lit_invalid_json_schema @ err"
| "Error (NotFound name) = lit_schema_not_found @ '': '' @ name"
| "Error (VersionNotFound name version) =
     lit_version_not_found @ name @ '' v'' @ itoa version"
| "Error NotFoundUnnamed = lit_schema_not_found"

datatype panic = InterfaceConversion

subsection \<open>The store\<close>

definition NewSchemaRegistry :: SchemaRegistry where
  "NewSchemaRegistry =
     \<lparr>schemas = Map.empty, versions = Map.empty, nextID = 1,
      defaultCompat = CompatibilityBackward\<rparr>"

text \<open>\<^verbatim>\<open>r.versions[name]\<close>: a missing key reads as the nil slice.\<close>

definition versions_at :: "SchemaRegistry \<Rightarrow> string \<Rightarrow> SchemaVersion list" where
  "versions_at r name = (case versions r name of None \<Rightarrow> [] | Some vs \<Rightarrow> vs)"

text \<open>The \<^verbatim>\<open>SchemaVersion\<close> literal built from a \<^verbatim>\<open>SchemaInfo\<close>, as
  written three times in the source (lines 113, 173, 203).\<close>

definition snapshot :: "SchemaInfo \<Rightarrow> SchemaVersion" where
  "snapshot s =
     \<lparr>sv_Version = Version s, sv_Schema = Schema s, sv_CreatedAt = CreatedAt s\<rparr>"

text \<open>\<^verbatim>\<open>Register\<close> (lines 84 to 134). The definition is decoded only to see
  whether it is JSON; \<open>Some\<close> of an error is the non-nil error returned.\<close>

definition Register ::
  "jsonlib \<Rightarrow> SchemaRegistry \<Rightarrow> string \<Rightarrow> SchemaType \<Rightarrow> string \<Rightarrow>
   RegisterOptions option \<Rightarrow> Time \<Rightarrow> error option \<times> SchemaRegistry" where
  "Register L r name schemaType schema opts now =
     (case (if schemaType = SchemaTypeJSON then json_Unmarshal L schema else Inr JNull) of
        Inl err \<Rightarrow> (Some (InvalidDefinition err), r)
      | Inr parsed \<Rightarrow>
          (let compatibility =
                 (case opts of
                    None \<Rightarrow> defaultCompat r
                  | Some opt \<Rightarrow>
                      if opt_Compatibility opt \<noteq> '''' then opt_Compatibility opt
                      else defaultCompat r);
               description = (case opts of None \<Rightarrow> '''' | Some opt \<Rightarrow> opt_Description opt);
               version = (case schemas r name of None \<Rightarrow> 1 | Some existing \<Rightarrow> Version existing + 1);
               history =
                 (case schemas r name of
                    None \<Rightarrow> versions r
                  | Some existing \<Rightarrow>
                      (versions r)(name \<mapsto> versions_at r name @ [snapshot existing]))
           in (None,
               r\<lparr>schemas := (schemas r)(name \<mapsto>
                    \<lparr>ID = nextID r, Name = name, Version = version, Type = schemaType,
                     Schema = schema, Compatibility = compatibility,
                     Description = description, CreatedAt = now, UpdatedAt = now\<rparr>),
                 versions := history,
                 nextID := nextID r + 1\<rparr>)))"

text \<open>\<^verbatim>\<open>Get\<close> (lines 137 to 146), \<^verbatim>\<open>GetVersion\<close> (lines 162 to 189, the
  loop returning the first record of the history with the version asked for) and
  \<^verbatim>\<open>GetVersions\<close> (lines 192 to 210).\<close>

definition Get :: "SchemaRegistry \<Rightarrow> string \<Rightarrow> error + SchemaInfo" where
  "Get r name = (case schemas r name of None \<Rightarrow> Inl (NotFound name) | Some schema \<Rightarrow> Inr schema)"

definition GetVersion :: "SchemaRegistry \<Rightarrow> string \<Rightarrow> int \<Rightarrow> error + SchemaVersion" where
  "GetVersion r name version =
     (case schemas r name of
        None \<Rightarrow> Inl (NotFound name)
      | Some current \<Rightarrow>
          if Version current = version then Inr (snapshot current)
          else (case List.find (\<lambda>v. sv_Version v = version) (versions_at r name) of
                  Some v \<Rightarrow> Inr v
                | None \<Rightarrow> Inl (VersionNotFound name version)))"

definition GetVersions :: "SchemaRegistry \<Rightarrow> string \<Rightarrow> error + SchemaVersion list" where
  "GetVersions r name =
     (case schemas r name of
        None \<Rightarrow> Inl (NotFound name)
      | Some current \<Rightarrow> Inr (([] @ versions_at r name) @ [snapshot current]))"

text \<open>\<^verbatim>\<open>Delete\<close> (lines 231 to 242) and \<^verbatim>\<open>SetCompatibility\<close> (lines 403
  to 416).\<close>

definition Delete :: "SchemaRegistry \<Rightarrow> string \<Rightarrow> error option \<times> SchemaRegistry" where
  "Delete r name =
     (case schemas r name of
        None \<Rightarrow> (Some (NotFound name), r)
      | Some _ \<Rightarrow>
          (None, r\<lparr>schemas := (schemas r)(name := None),
                   versions := (versions r)(name := None)\<rparr>))"

definition SetCompatibility ::
  "SchemaRegistry \<Rightarrow> string \<Rightarrow> CompatibilityMode \<Rightarrow> Time \<Rightarrow> error option \<times> SchemaRegistry" where
  "SetCompatibility r name mode now =
     (case schemas r name of
        None \<Rightarrow> (Some NotFoundUnnamed, r)
      | Some schema \<Rightarrow>
          (None, r\<lparr>schemas := (schemas r)(name \<mapsto>
                     schema\<lparr>Compatibility := mode, UpdatedAt := now\<rparr>)\<rparr>))"

subsection \<open>The validation engine\<close>

definition msg_required_missing :: "string \<Rightarrow> string" where
  "msg_required_missing fieldName = lit_required_missing @ fieldName"

definition msg_must_be :: "string \<Rightarrow> string \<Rightarrow> string" where
  "msg_must_be name ty = lit_field @ name @ lit_neun @ ty @ lit_must_be_type"

definition msg_not_allowed :: "string \<Rightarrow> string \<Rightarrow> string" where
  "msg_not_allowed name strVal = lit_field @ name @ lit_value_of @ strVal @ lit_not_allowed"

definition msg_below_minimum :: "jsonlib \<Rightarrow> string \<Rightarrow> rat \<Rightarrow> string" where
  "msg_below_minimum L name minimum =
     lit_field @ name @ lit_value_must @ fmt_float64 L minimum @ lit_at_least"

text \<open>The loop over a declared \<^verbatim>\<open>enum\<close> (lines 357 to 362): \<^verbatim>\<open>e.(string)\<close>
  panics at the first entry that is not a string, unless a match has ended the
  loop before.\<close>

fun enum_loop :: "jvalue list \<Rightarrow> string \<Rightarrow> panic + bool" where
  "enum_loop [] strVal = Inr False"
| "enum_loop (e # es) strVal =
     (case e of
        JString s \<Rightarrow> if s = strVal then Inr True else enum_loop es strVal
      | _ \<Rightarrow> Inl InterfaceConversion)"

text \<open>\<^verbatim>\<open>validateField\<close> (lines 345 to 400). \<open>Inr None\<close> is the nil error.
  The cases \<^verbatim>\<open>int\<close> and \<^verbatim>\<open>int64\<close> of the type switch under
  \<^verbatim>\<open>"number"\<close> have no decoded JSON value.\<close>

definition validateField ::
  "jsonlib \<Rightarrow> string \<Rightarrow> jvalue \<Rightarrow> (string \<times> jvalue) list \<Rightarrow> panic + string option" where
  "validateField L name val propDef =
     (let expectedType = (case map_of propDef ''type'' of Some (JString t) \<Rightarrow> t | _ \<Rightarrow> '''') in
      if expectedType = ''string'' then
        (case val of
           JString strVal \<Rightarrow>
             (case map_of propDef ''enum'' of
                Some (JArray enum) \<Rightarrow>
                  (case enum_loop enum strVal of
                     Inl p \<Rightarrow> Inl p
                   | Inr valid \<Rightarrow>
                       if \<not> valid then Inr (Some (msg_not_allowed name strVal)) else Inr None)
              | _ \<Rightarrow> Inr None)
         | _ \<Rightarrow> Inr (Some (msg_must_be name ''string'')))
      else if expectedType = ''number'' then
        (case val of
           JNumber v \<Rightarrow>
             (case map_of propDef ''minimum'' of
                Some (JNumber minimum) \<Rightarrow>
                  if v < minimum then Inr (Some (msg_below_minimum L name minimum)) else Inr None
              | _ \<Rightarrow> Inr None)
         | _ \<Rightarrow> Inr (Some (msg_must_be name ''number'')))
      else if expectedType = ''boolean'' then
        (case val of JBool _ \<Rightarrow> Inr None | _ \<Rightarrow> Inr (Some (msg_must_be name ''boolean'')))
      else if expectedType = ''object'' then
        (case val of JObject _ \<Rightarrow> Inr None | _ \<Rightarrow> Inr (Some (msg_must_be name ''object'')))
      else if expectedType = ''array'' then
        (case val of JArray _ \<Rightarrow> Inr None | _ \<Rightarrow> Inr (Some (msg_must_be name ''array'')))
      else Inr None)"

text \<open>The loop over \<^verbatim>\<open>required\<close> (lines 310 to 315), with the error slice as
  accumulator.\<close>

fun required_loop ::
  "(string \<times> jvalue) list \<Rightarrow> jvalue list \<Rightarrow> string list \<Rightarrow> panic + string list" where
  "required_loop dataMap [] validationErrors = Inr validationErrors"
| "required_loop dataMap (field # rest) validationErrors =
     (case field of
        JString fieldName \<Rightarrow>
          required_loop dataMap rest
            (if map_of dataMap fieldName = None
             then validationErrors @ [msg_required_missing fieldName]
             else validationErrors)
      | _ \<Rightarrow> Inl InterfaceConversion)"

text \<open>The loop over the payload's entries (lines 320 to 327); the third argument
  is what is left of \<^verbatim>\<open>dataMap\<close> to visit.\<close>

fun properties_loop ::
  "jsonlib \<Rightarrow> (string \<times> jvalue) list \<Rightarrow> (string \<times> jvalue) list \<Rightarrow> string list \<Rightarrow>
   panic + string list" where
  "properties_loop L properties [] validationErrors = Inr validationErrors"
| "properties_loop L properties ((fieldName, fieldValue) # rest) validationErrors =
     (case map_of properties fieldName of
        None \<Rightarrow> properties_loop L properties rest validationErrors
      | Some (JObject propMap) \<Rightarrow>
          (case validateField L fieldName fieldValue propMap of
             Inl p \<Rightarrow> Inl p
           | Inr None \<Rightarrow> properties_loop L properties rest validationErrors
           | Inr (Some err) \<Rightarrow> properties_loop L properties rest (validationErrors @ [err]))
      | Some _ \<Rightarrow> Inl InterfaceConversion)"

text \<open>\<^verbatim>\<open>validateJSON\<close> (lines 287 to 342). The nil error slice of a valid
  result is the empty list.\<close>

definition validateJSON ::
  "jsonlib \<Rightarrow> SchemaInfo \<Rightarrow> string \<Rightarrow> panic + ValidationResult" where
  "validateJSON L schema data =
     (case Unmarshal_map L data of
        Inl err \<Rightarrow>
          Inr \<lparr>Valid = False, Errors = [lit_json_parse_failed @ err],
               Message = lit_bad_json_format\<rparr>
      | Inr dataMap \<Rightarrow>
          (case Unmarshal_map L (Schema schema) of
             Inl err \<Rightarrow>
               Inr \<lparr>Valid = False, Errors = [lit_schema_parse_failed @ err],
                    Message = lit_bad_schema_format\<rparr>
           | Inr schemaMap \<Rightarrow>
               (case (case map_of schemaMap ''required'' of
                        Some (JArray required) \<Rightarrow> required_loop dataMap required []
                      | _ \<Rightarrow> Inr []) of
                  Inl p \<Rightarrow> Inl p
                | Inr errs1 \<Rightarrow>
                    (case (case map_of schemaMap ''properties'' of
                             Some (JObject properties) \<Rightarrow>
                               properties_loop L properties dataMap errs1
                           | _ \<Rightarrow> Inr errs1) of
                       Inl p \<Rightarrow> Inl p
                     | Inr validationErrors \<Rightarrow>
                         if length validationErrors > 0 then
                           Inr \<lparr>Valid = False, Errors = validationErrors,
                                Message = itoa (int (length validationErrors)) @ lit_n_errors\<rparr>
                         else Inr \<lparr>Valid = True, Errors = [], Message = lit_success\<rparr>))))"

text \<open>\<^verbatim>\<open>Validate\<close> (lines 252 to 284).\<close>

definition Validate ::
  "jsonlib \<Rightarrow> SchemaRegistry \<Rightarrow> string \<Rightarrow> string \<Rightarrow> panic + ValidationResult" where
  "Validate L r schemaName data =
     (case Get r schemaName of
        Inl err \<Rightarrow> Inr \<lparr>Valid = False, Errors = [Error err], Message = lit_lookup_failed\<rparr>
      | Inr schema \<Rightarrow>
          if Type schema = SchemaTypeJSON then validateJSON L schema data
          else if Type schema = SchemaTypeProtobuf then
            Inr \<lparr>Valid = False, Errors = [lit_protobuf_unsupported],
                 Message = lit_unsupported_type\<rparr>
          else if Type schema = SchemaTypeAvro then
            Inr \<lparr>Valid = False, Errors = [lit_avro_unsupported],
                 Message = lit_unsupported_type\<rparr>
          else
            Inr \<lparr>Valid = False, Errors = [lit_unknown_schema_type @ Type schema],
                 Message = lit_unknown_type\<rparr>)"

subsection \<open>Sequences of mutating calls\<close>

text \<open>The three mutating operations as commands, and the store after a sequence
  of them. A call that returns an error returns the store it was given.\<close>

datatype op =
    OpRegister string SchemaType string "RegisterOptions option" Time
  | OpDelete string
  | OpSetCompatibility string CompatibilityMode Time

fun exec :: "jsonlib \<Rightarrow> op \<Rightarrow> SchemaRegistry \<Rightarrow> error option \<times> SchemaRegistry" where
  "exec L (OpRegister name schemaType schema opts now) r =
     Register L r name schemaType schema opts now"
| "exec L (OpDelete name) r = Delete r name"
| "exec L (OpSetCompatibility name mode now) r = SetCompatibility r name mode now"

fun run :: "jsonlib \<Rightarrow> op list \<Rightarrow> SchemaRegistry \<Rightarrow> SchemaRegistry" where
  "run L [] r = r"
| "run L (c # cs) r = run L cs (snd (exec L c r))"

text \<open>The name a command addresses.\<close>

fun target :: "op \<Rightarrow> string" where
  "target (OpRegister name schemaType schema opts now) = name"
| "target (OpDelete name) = name"
| "target (OpSetCompatibility name mode now) = name"

fun is_register :: "op \<Rightarrow> bool" where
  "is_register (OpRegister name schemaType schema opts now) = True"
| "is_register _ = False"

text \<open>The ids handed out during a run, in the order of the calls: the
  \<^verbatim>\<open>ID\<close> of the schema that each successful \<^verbatim>\<open>Register\<close> stores.\<close>

fun issued :: "jsonlib \<Rightarrow> op list \<Rightarrow> SchemaRegistry \<Rightarrow> int list" where
  "issued L [] r = []"
| "issued L (c # cs) r =
     (case exec L c r of
        (None, r') \<Rightarrow>
          (if is_register c
           then (case schemas r' (target c) of Some s \<Rightarrow> [ID s] | None \<Rightarrow> [])
           else [])
      | (Some err, r') \<Rightarrow> [])
     @ issued L cs (snd (exec L c r))"

text \<open>The number of successful \<^verbatim>\<open>Register\<close> calls for \<open>name\<close> in a run.\<close>

fun registered :: "jsonlib \<Rightarrow> string \<Rightarrow> op list \<Rightarrow> SchemaRegistry \<Rightarrow> nat" where
  "registered L name [] r = 0"
| "registered L name (c # cs) r =
     (if is_register c \<and> target c = name \<and> fst (exec L c r) = None then 1 else 0)
     + registered L name cs (snd (exec L c r))"

subsection \<open>Invariants of the store\<close>

text \<open>Every id held by a current schema lies below the counter, no two current
  schemas hold the same id, and the history of a name carries the versions
  from 1 up to the one before the current version (a name without a current
  schema has no history entry).\<close>

definition ids_below :: "SchemaRegistry \<Rightarrow> bool" where
  "ids_below r = (\<forall>n s. schemas r n = Some s \<longrightarrow> ID s < nextID r)"

definition ids_unique :: "SchemaRegistry \<Rightarrow> bool" where
  "ids_unique r =
     (\<forall>n m s t. schemas r n = Some s \<and> schemas r m = Some t \<and> ID s = ID t \<longrightarrow> n = m)"

definition ids_positive :: "SchemaRegistry \<Rightarrow> bool" where
  "ids_positive r = (1 \<le> nextID r \<and> (\<forall>n s. schemas r n = Some s \<longrightarrow> 1 \<le> ID s))"

definition versions_ok :: "SchemaRegistry \<Rightarrow> string \<Rightarrow> bool" where
  "versions_ok r name =
     (case schemas r name of
        None \<Rightarrow> versions r name = None
      | Some cur \<Rightarrow>
          1 \<le> Version cur \<and> map sv_Version (versions_at r name) = [1 .. Version cur - 1])"

subsection \<open>The validation algorithm as the specification words it\<close>

text \<open>
  The specification describes the engine declaratively: the errors are the
  missing required names, in the order of the \<^verbatim>\<open>required\<close> array, followed by
  one message for each payload entry whose key is a property and whose value
  fails the check of the declared type. The definitions below follow that
  wording; they are compared with \<open>validateJSON\<close> further down.
\<close>

definition spec_type_of :: "jvalue \<Rightarrow> string" where
  "spec_type_of v =
     (case v of
        JNull \<Rightarrow> ''null''
      | JBool b \<Rightarrow> ''boolean''
      | JNumber x \<Rightarrow> ''number''
      | JString s \<Rightarrow> ''string''
      | JArray xs \<Rightarrow> ''array''
      | JObject m \<Rightarrow> ''object'')"

definition spec_checked_types :: "string list" where
  "spec_checked_types = [''string'', ''number'', ''boolean'', ''object'', ''array'']"

definition spec_declared_type :: "(string \<times> jvalue) list \<Rightarrow> string option" where
  "spec_declared_type prop =
     (case map_of prop ''type'' of Some (JString t) \<Rightarrow> Some t | _ \<Rightarrow> None)"

definition spec_field_errors ::
  "jsonlib \<Rightarrow> string \<Rightarrow> jvalue \<Rightarrow> (string \<times> jvalue) list \<Rightarrow> string list" where
  "spec_field_errors L name v prop =
     (case spec_declared_type prop of
        None \<Rightarrow> []
      | Some ty \<Rightarrow>
          if ty \<notin> set spec_checked_types then []
          else if spec_type_of v \<noteq> ty then [msg_must_be name ty]
          else (case (v, map_of prop ''enum'', map_of prop ''minimum'') of
                  (JString s, Some (JArray allowed), _) \<Rightarrow>
                    if JString s \<in> set allowed then [] else [msg_not_allowed name s]
                | (JNumber x, _, Some (JNumber minimum)) \<Rightarrow>
                    if x \<ge> minimum then [] else [msg_below_minimum L name minimum]
                | _ \<Rightarrow> []))"

definition spec_required_errors ::
  "(string \<times> jvalue) list \<Rightarrow> (string \<times> jvalue) list \<Rightarrow> string list" where
  "spec_required_errors schemaMap payload =
     (case map_of schemaMap ''required'' of
        Some (JArray names) \<Rightarrow>
          [msg_required_missing n. JString n \<leftarrow> names, n \<notin> fst ` set payload]
      | _ \<Rightarrow> [])"

definition spec_property_errors ::
  "jsonlib \<Rightarrow> (string \<times> jvalue) list \<Rightarrow> (string \<times> jvalue) list \<Rightarrow> string list" where
  "spec_property_errors L schemaMap payload =
     (case map_of schemaMap ''properties'' of
        Some (JObject props) \<Rightarrow>
          concat (map (\<lambda>(k, v). case map_of props k of
                                   Some (JObject prop) \<Rightarrow> spec_field_errors L k v prop
                                 | _ \<Rightarrow> []) payload)
      | _ \<Rightarrow> [])"

definition spec_validate :: "jsonlib \<Rightarrow> string \<Rightarrow> string \<Rightarrow> ValidationResult" where
  "spec_validate L schemaDefinition payload =
     (case Unmarshal_map L payload of
        Inl err \<Rightarrow>
          \<lparr>Valid = False, Errors = [lit_json_parse_failed @ err], Message = lit_bad_json_format\<rparr>
      | Inr p \<Rightarrow>
          (case Unmarshal_map L schemaDefinition of
             Inl err \<Rightarrow>
               \<lparr>Valid = False, Errors = [lit_schema_parse_failed @ err],
                Message = lit_bad_schema_format\<rparr>
           | Inr schemaMap \<Rightarrow>
               (let errs = spec_required_errors schemaMap p @ spec_property_errors L schemaMap p
                in \<lparr>Valid = (length errs = 0), Errors = errs,
                    Message = (if length errs = 0 then lit_success
                               else itoa (int (length errs)) @ lit_n_errors)\<rparr>)))"

text \<open>The shape of a decoded schema under which no type assertion of the JSON
  path can fail: the entries of \<^verbatim>\<open>required\<close> are strings, the values of
  \<^verbatim>\<open>properties\<close> are objects, and the entries of an \<^verbatim>\<open>enum\<close> array
  declared by a property are strings.\<close>

definition strings_only :: "jvalue list \<Rightarrow> bool" where
  "strings_only xs = list_all (\<lambda>x. case x of JString s \<Rightarrow> True | _ \<Rightarrow> False) xs"

definition well_shaped_property :: "jvalue \<Rightarrow> bool" where
  "well_shaped_property p =
     (case p of
        JObject prop \<Rightarrow>
          (case map_of prop ''enum'' of
             Some (JArray allowed) \<Rightarrow> strings_only allowed
           | _ \<Rightarrow> True)
      | _ \<Rightarrow> False)"

definition well_shaped :: "(string \<times> jvalue) list \<Rightarrow> bool" where
  "well_shaped schemaMap =
     ((case map_of schemaMap ''required'' of
         Some (JArray names) \<Rightarrow> strings_only names
       | _ \<Rightarrow> True)
      \<and> (case map_of schemaMap ''properties'' of
           Some (JObject props) \<Rightarrow> list_all (\<lambda>(k, p). well_shaped_property p) props
         | _ \<Rightarrow> True))"

subsection \<open>A session for evaluating the results\<close>

text \<open>
  Five documents and a fragment of the library that decodes them: a schema
  with a required field, an enum and a minimum; a payload that satisfies it;
  a payload that misses the required field and undercuts the minimum; a schema
  whose \<^verbatim>\<open>required\<close> array holds a number; and a truncated document,
  which is not JSON. The fragment prints a \<^verbatim>\<open>float64\<close> of integral value
  as that integer, the way \<^verbatim>\<open>%v\<close> does below \<open>10^21\<close>.
\<close>

definition doc_schema :: string where
  \<open>doc_schema =
     ''{"required":["id"],"properties":{"id":{"type":"string","enum":["a","b"]},"n":{"type":"number","minimum":0}}}''\<close>

definition doc_good :: string where
  \<open>doc_good = ''{"id":"a","n":1}''\<close>

definition doc_bad :: string where
  \<open>doc_bad = ''{"n":-5}''\<close>

definition doc_ill_shaped :: string where
  \<open>doc_ill_shaped = ''{"required":[1]}''\<close>

definition doc_truncated :: string where
  \<open>doc_truncated = ''{"id":''\<close>

definition demo_table :: "(string \<times> jvalue) list" where
  "demo_table =
     [(doc_schema,
       JObject
         [(''required'', JArray [JString ''id'']),
          (''properties'', JObject
             [(''id'', JObject [(''type'', JString ''string''),
                                (''enum'', JArray [JString ''a'', JString ''b''])]),
              (''n'', JObject [(''type'', JString ''number''), (''minimum'', JNumber 0)])])]),
      (doc_good, JObject [(''id'', JString ''a''), (''n'', JNumber 1)]),
      (doc_bad, JObject [(''n'', JNumber (- 5))]),
      (doc_ill_shaped, JObject [(''required'', JArray [JNumber 1])])]"

definition demo_lib :: jsonlib where
  "demo_lib =
     \<lparr>json_Unmarshal =
        (\<lambda>data. case map_of demo_table data of
                  Some v \<Rightarrow> Inr v
                | None \<Rightarrow> Inl ''unexpected end of JSON input''),
      json_TypeError =
        (\<lambda>v. ''json: cannot unmarshal ''
              @ (case v of
                   JBool b \<Rightarrow> ''bool''
                 | JNumber x \<Rightarrow> ''number''
                 | JString s \<Rightarrow> ''string''
                 | _ \<Rightarrow> ''array'')
              @ '' into Go value of type map[string]interface {}''),
      fmt_float64 = (\<lambda>q. itoa \<lfloor>q\<rfloor>)\<rparr>"

text \<open>A name is registered and deleted; then the session proper: two names are
  registered, the first one a second time without options, the second one is
  deleted and registered again, and one registration is rejected.\<close>

definition demo_pre :: "op list" where
  "demo_pre =
     [OpRegister ''OrderEvent'' SchemaTypeAvro '''' None 50,
      OpDelete ''OrderEvent'']"

definition demo_session :: "op list" where
  "demo_session =
     [OpRegister ''OrderEvent'' SchemaTypeJSON doc_schema
        (Some \<lparr>opt_Description = ''orders'', opt_Compatibility = CompatibilityFull\<rparr>) 100,
      OpRegister ''Audit'' SchemaTypeAvro '''' None 150,
      OpRegister ''OrderEvent'' SchemaTypeJSON doc_schema None 200,
      OpDelete ''Audit'',
      OpRegister ''OrderEvent'' SchemaTypeJSON doc_truncated None 250,
      OpRegister ''Audit'' SchemaTypeProtobuf '''' None 300]"

definition demo_store :: SchemaRegistry where
  "demo_store = run demo_lib demo_session NewSchemaRegistry"

text \<open>The store after the first two calls of the session.\<close>

definition demo_store2 :: SchemaRegistry where
  "demo_store2 = run demo_lib (take 2 demo_session) NewSchemaRegistry"

text \<open>The current schema of the first name at the end of the session.\<close>

definition demo_schema :: SchemaInfo where
  "demo_schema =
     \<lparr>ID = 3, Name = ''OrderEvent'', Version = 2, Type = SchemaTypeJSON, Schema = doc_schema,
      Compatibility = CompatibilityBackward, Description = '''', CreatedAt = 200,
      UpdatedAt = 200\<rparr>"

section \<open>Properties of the store\<close>

subsection \<open>What a call of Register does\<close>

lemma Register_ok_schemas:
  assumes "Register L r name ty schema opts now = (None, r')"
  shows "\<exists>new. schemas r' name = Some new \<and> ID new = nextID r \<and> Name new = name
           \<and> Type new = ty \<and> Schema new = schema \<and> CreatedAt new = now \<and> UpdatedAt new = now
           \<and> Version new = (case schemas r name of None \<Rightarrow> 1 | Some old \<Rightarrow> Version old + 1)"
  using assms by (auto simp: Register_def Let_def split: sum.splits)

lemma Register_ok_frame:
  assumes "Register L r name ty schema opts now = (None, r')"
  shows "nextID r' = nextID r + 1"
    and "other \<noteq> name \<Longrightarrow> schemas r' other = schemas r other"
    and "other \<noteq> name \<Longrightarrow> versions r' other = versions r other"
    and "versions r' name =
           (case schemas r name of None \<Rightarrow> versions r name
            | Some old \<Rightarrow> Some (versions_at r name @ [snapshot old]))"
  using assms by (auto simp: Register_def Let_def split: sum.splits option.splits)

lemma Register_err_unchanged:
  assumes "Register L r name ty schema opts now = (Some e, r')"
  shows "r' = r"
  using assms by (auto simp: Register_def Let_def split: sum.splits)

subsection \<open>Ids stay below the counter and apart from each other\<close>

lemma Register_ids_below:
  assumes "ids_below r" and "Register L r name ty schema opts now = (e, r')"
  shows "ids_below r'"
proof (cases e)
  case None
  with assms(2) have ok: "Register L r name ty schema opts now = (None, r')" by simp
  show ?thesis
    unfolding ids_below_def
  proof (intro allI impI)
    fix n s assume h: "schemas r' n = Some s"
    show "ID s < nextID r'"
    proof (cases "n = name")
      case True
      with h Register_ok_schemas[OF ok] Register_ok_frame(1)[OF ok] show ?thesis by auto
    next
      case False
      with h Register_ok_frame(2)[OF ok, of n] have "schemas r n = Some s" by simp
      with assms(1) have "ID s < nextID r" by (auto simp: ids_below_def)
      with Register_ok_frame(1)[OF ok] show ?thesis by simp
    qed
  qed
next
  case (Some a)
  with assms Register_err_unchanged show ?thesis by blast
qed

lemma Delete_ids_below: "ids_below r \<Longrightarrow> ids_below (snd (Delete r name))"
  by (auto simp: ids_below_def Delete_def split: option.splits if_splits)

lemma SetCompatibility_ids_below: "ids_below r \<Longrightarrow> ids_below (snd (SetCompatibility r name mode now))"
  by (auto simp: ids_below_def SetCompatibility_def split: option.splits if_splits)

lemma exec_ids_below: "ids_below r \<Longrightarrow> ids_below (snd (exec L c r))"
proof (cases c)
  case (OpRegister n ty s opts now)
  assume "ids_below r"
  then show ?thesis using OpRegister Register_ids_below[of r L n ty s opts now]
    by (cases "Register L r n ty s opts now") auto
qed (simp_all add: Delete_ids_below SetCompatibility_ids_below)

lemma Register_ids_unique:
  assumes "ids_below r" and "ids_unique r" and "Register L r name ty schema opts now = (e, r')"
  shows "ids_unique r'"
proof (cases e)
  case None
  with assms(3) have ok: "Register L r name ty schema opts now = (None, r')" by simp
  from Register_ok_schemas[OF ok] obtain new where new: "schemas r' name = Some new" "ID new = nextID r"
    by blast
  have old: "\<And>n s. n \<noteq> name \<Longrightarrow> schemas r' n = Some s \<Longrightarrow> schemas r n = Some s \<and> ID s < nextID r"
    using Register_ok_frame(2)[OF ok] assms(1) by (auto simp: ids_below_def)
  show ?thesis
    unfolding ids_unique_def
  proof (intro allI impI, elim conjE)
    fix n m s t
    assume h: "schemas r' n = Some s" "schemas r' m = Some t" "ID s = ID t"
    show "n = m"
    proof (cases "n = name"; cases "m = name")
      assume "n \<noteq> name" "m \<noteq> name"
      with h old have "schemas r n = Some s" "schemas r m = Some t" by blast+
      with h(3) assms(2) show ?thesis unfolding ids_unique_def by blast
    next
      assume "n = name" "m \<noteq> name"
      with h new old[of m t] show ?thesis by auto
    next
      assume "n \<noteq> name" "m = name"
      with h new old[of n s] show ?thesis by auto
    qed simp
  qed
next
  case (Some a)
  with assms Register_err_unchanged show ?thesis by blast
qed

lemma Delete_ids_unique: "ids_unique r \<Longrightarrow> ids_unique (snd (Delete r name))"
  unfolding ids_unique_def Delete_def
  by (cases "schemas r name") (auto split: if_splits)

lemma SetCompatibility_ids_unique: "ids_unique r \<Longrightarrow> ids_unique (snd (SetCompatibility r name mode now))"
  unfolding ids_unique_def SetCompatibility_def
  apply (cases "schemas r name")
   apply simp
  apply (simp split: if_splits)
  apply (intro allI impI conjI)
  apply metis+
  done

lemma exec_ids_unique: "ids_below r \<Longrightarrow> ids_unique r \<Longrightarrow> ids_unique (snd (exec L c r))"
proof (cases c)
  case (OpRegister n ty s opts now)
  assume "ids_below r" "ids_unique r"
  then show ?thesis using OpRegister Register_ids_unique[of r L n ty s opts now]
    by (cases "Register L r n ty s opts now") auto
qed (simp_all add: Delete_ids_unique SetCompatibility_ids_unique)

lemma run_ids: "ids_below r \<Longrightarrow> ids_unique r \<Longrightarrow> ids_below (run L cs r) \<and> ids_unique (run L cs r)"
  by (induction cs arbitrary: r) (simp_all add: exec_ids_below exec_ids_unique)

lemma New_ids: "ids_below NewSchemaRegistry" "ids_unique NewSchemaRegistry"
  by (simp_all add: ids_below_def ids_unique_def NewSchemaRegistry_def)

lemma exec_nextID:
  "nextID (snd (exec L c r)) = nextID r + (if is_register c \<and> fst (exec L c r) = None then 1 else 0)"
  by (cases c) (auto simp: Register_def Delete_def SetCompatibility_def Let_def split: sum.splits option.splits)

lemma exec_nextID_mono: "nextID r \<le> nextID (snd (exec L c r))"
  by (simp add: exec_nextID)

lemma run_nextID_mono: "nextID r \<le> nextID (run L cs r)"
proof (induction cs arbitrary: r)
  case Nil
  show ?case by simp
next
  case (Cons c cs)
  have "nextID r \<le> nextID (snd (exec L c r))" by (rule exec_nextID_mono)
  also have "\<dots> \<le> nextID (run L cs (snd (exec L c r)))" by (rule Cons.IH)
  finally show ?case by simp
qed

text \<open>The counter starts at 1 and moves by at most one per call, and every id
  held is at least 1.\<close>

lemma run_nextID_bound: "nextID (run L cs r) \<le> nextID r + int (length cs)"
proof (induction cs arbitrary: r)
  case Nil
  show ?case by simp
next
  case (Cons c cs)
  have "nextID (run L cs (snd (exec L c r))) \<le> nextID (snd (exec L c r)) + int (length cs)"
    by (rule Cons.IH)
  moreover have "nextID (snd (exec L c r)) \<le> nextID r + 1"
    by (simp add: exec_nextID)
  ultimately show ?case by simp
qed

lemma exec_ids_positive: "ids_positive r \<Longrightarrow> ids_positive (snd (exec L c r))"
proof (cases c)
  case (OpRegister n ty s opts now)
  assume "ids_positive r"
  then show ?thesis
    using OpRegister
    by (auto simp: ids_positive_def Register_def Let_def split: sum.splits if_splits)
next
  case (OpDelete n)
  assume "ids_positive r"
  then show ?thesis
    using OpDelete by (auto simp: ids_positive_def Delete_def split: option.splits if_splits)
next
  case (OpSetCompatibility n m t)
  assume "ids_positive r"
  then show ?thesis
    using OpSetCompatibility
    by (auto simp: ids_positive_def SetCompatibility_def split: option.splits if_splits)
qed

lemma run_ids_positive: "ids_positive r \<Longrightarrow> ids_positive (run L cs r)"
  by (induction cs arbitrary: r) (simp_all add: exec_ids_positive)

lemma New_ids_positive: "ids_positive NewSchemaRegistry"
  by (simp add: ids_positive_def NewSchemaRegistry_def)

lemma issued_head:
  "(case exec L c r of
      (None, r') \<Rightarrow> (if is_register c then (case schemas r' (target c) of Some s \<Rightarrow> [ID s] | None \<Rightarrow> []) else [])
    | (Some err, r') \<Rightarrow> [])
   = (if is_register c \<and> fst (exec L c r) = None then [nextID r] else [])"
proof (cases c)
  case (OpRegister n ty s opts now)
  show ?thesis
  proof (cases "Register L r n ty s opts now")
    case (Pair e r')
    show ?thesis
    proof (cases e)
      case None
      with Pair Register_ok_schemas[of L r n ty s opts now r'] OpRegister show ?thesis by auto
    next
      case (Some a)
      with Pair OpRegister show ?thesis by simp
    qed
  qed
next
  case (OpDelete n)
  then show ?thesis by (simp split: prod.splits option.splits)
next
  case (OpSetCompatibility n m t)
  then show ?thesis by (simp split: prod.splits option.splits)
qed

lemma issued_upto: "issued L cs r = [nextID r .. nextID (run L cs r) - 1]"
proof (induction cs arbitrary: r)
  case Nil
  show ?case by simp
next
  case (Cons c cs)
  let ?r1 = "snd (exec L c r)"
  have IH: "issued L cs ?r1 = [nextID ?r1 .. nextID (run L cs ?r1) - 1]" by (rule Cons.IH)
  have mono: "nextID ?r1 \<le> nextID (run L cs ?r1)" by (rule run_nextID_mono)
  show ?case
  proof (cases "is_register c \<and> fst (exec L c r) = None")
    case True
    then have n1: "nextID ?r1 = nextID r + 1" by (simp add: exec_nextID)
    have "issued L (c # cs) r = nextID r # [nextID r + 1 .. nextID (run L cs ?r1) - 1]"
      using True IH n1 by (simp add: issued_head del: exec.simps)
    also have "\<dots> = [nextID r .. nextID (run L cs ?r1) - 1]"
      using mono n1 by (simp add: upto_rec1)
    finally show ?thesis by simp
  next
    case False
    then have n1: "nextID ?r1 = nextID r" by (simp add: exec_nextID)
    have "issued L (c # cs) r = [nextID r .. nextID (run L cs ?r1) - 1]"
      using False IH n1 by (simp add: issued_head del: exec.simps)
    then show ?thesis by simp
  qed
qed

subsection \<open>Histories are contiguous\<close>

lemma New_versions_ok: "versions_ok NewSchemaRegistry name"
  by (simp add: versions_ok_def NewSchemaRegistry_def)

lemma upto_snoc: "1 \<le> (v::int) \<Longrightarrow> [1 .. v - 1] @ [v] = [1 .. v]"
  using upto_rec2[of 1 v] by simp

lemma Register_versions_ok:
  assumes "versions_ok r n" and "Register L r name ty schema opts now = (e, r')"
  shows "versions_ok r' n"
proof (cases e)
  case None
  with assms(2) have ok: "Register L r name ty schema opts now = (None, r')" by simp
  show ?thesis
  proof (cases "n = name")
    case False
    with Register_ok_frame(2,3)[OF ok, of n] assms(1) show ?thesis
      by (simp add: versions_ok_def versions_at_def split: option.splits)
  next
    case True
    from Register_ok_schemas[OF ok] obtain new where new: "schemas r' name = Some new"
      "Version new = (case schemas r name of None \<Rightarrow> 1 | Some old \<Rightarrow> Version old + 1)" by blast
    show ?thesis
    proof (cases "schemas r name")
      case None
      with assms(1) True have "versions r name = None" by (simp add: versions_ok_def)
      with None Register_ok_frame(4)[OF ok] new True show ?thesis
        by (simp add: versions_ok_def versions_at_def)
    next
      case (Some old)
      with assms(1) True have o: "1 \<le> Version old" "map sv_Version (versions_at r name) = [1 .. Version old - 1]"
        by (simp_all add: versions_ok_def)
      from Some Register_ok_frame(4)[OF ok] have "versions_at r' name = versions_at r name @ [snapshot old]"
        by (simp add: versions_at_def)
      then have "map sv_Version (versions_at r' name) = [1 .. Version old]"
        using o upto_snoc[of "Version old"] by (simp add: snapshot_def)
      with new Some o(1) True show ?thesis by (simp add: versions_ok_def)
    qed
  qed
next
  case (Some a)
  with assms Register_err_unchanged show ?thesis by blast
qed

lemma Delete_versions_ok: "versions_ok r n \<Longrightarrow> versions_ok (snd (Delete r name)) n"
  by (cases "schemas r name") (auto simp: versions_ok_def Delete_def versions_at_def split: option.splits)

lemma SetCompatibility_versions_ok:
  "versions_ok r n \<Longrightarrow> versions_ok (snd (SetCompatibility r name mode now)) n"
  by (cases "schemas r name") (auto simp: versions_ok_def SetCompatibility_def versions_at_def split: option.splits)

lemma exec_versions_ok: "versions_ok r n \<Longrightarrow> versions_ok (snd (exec L c r)) n"
proof (cases c)
  case (OpRegister name ty s opts now)
  assume "versions_ok r n"
  then show ?thesis using OpRegister Register_versions_ok[of r n L name ty s opts now]
    by (cases "Register L r name ty s opts now") auto
qed (simp_all add: Delete_versions_ok SetCompatibility_versions_ok)

lemma run_versions_ok: "versions_ok r n \<Longrightarrow> versions_ok (run L cs r) n"
  by (induction cs arbitrary: r) (simp_all add: exec_versions_ok)

text \<open>How one command moves the current version of \<open>name\<close>, deletions of
  \<open>name\<close> apart, and how a run does.\<close>

lemma exec_current_version:
  assumes "c \<noteq> OpDelete name"
  shows "map_option Version (schemas (snd (exec L c r)) name) =
           (if is_register c \<and> target c = name \<and> fst (exec L c r) = None
            then Some (case schemas r name of None \<Rightarrow> 1 | Some old \<Rightarrow> Version old + 1)
            else map_option Version (schemas r name))"
proof (cases c)
  case (OpRegister n ty s opts now)
  show ?thesis
  proof (cases "Register L r n ty s opts now")
    case (Pair e r')
    show ?thesis
    proof (cases e)
      case None
      with Pair Register_ok_schemas[of L r n ty s opts now r'] Register_ok_frame(2)[of L r n ty s opts now r' name]
        OpRegister show ?thesis by auto
    next
      case (Some a)
      with Pair Register_err_unchanged[of L r n ty s opts now a r'] OpRegister show ?thesis by simp
    qed
  qed
next
  case (OpDelete n)
  with assms show ?thesis by (auto simp: Delete_def split: option.splits)
next
  case (OpSetCompatibility n m t)
  then show ?thesis by (auto simp: SetCompatibility_def split: option.splits)
qed

lemma run_current_version:
  assumes "OpDelete name \<notin> set cs"
  shows "map_option Version (schemas (run L cs r) name) =
           (case schemas r name of
              None \<Rightarrow> if registered L name cs r = 0 then None else Some (int (registered L name cs r))
            | Some old \<Rightarrow> Some (Version old + int (registered L name cs r)))"
  using assms
proof (induction cs arbitrary: r)
  case Nil
  show ?case by (simp split: option.splits)
next
  case (Cons c cs)
  let ?r1 = "snd (exec L c r)"
  from Cons.prems have c: "c \<noteq> OpDelete name" and cs: "OpDelete name \<notin> set cs" by auto
  note IH = Cons.IH[OF cs, of ?r1]
  note st = exec_current_version[OF c, of L r]
  show ?case
  proof (cases "is_register c \<and> target c = name \<and> fst (exec L c r) = None")
    case True
    with st obtain new where new: "schemas ?r1 name = Some new"
      "Version new = (case schemas r name of None \<Rightarrow> 1 | Some old \<Rightarrow> Version old + 1)" by auto
    with IH True show ?thesis by (auto simp del: exec.simps split: option.splits)
  next
    case False
    with st have same: "map_option Version (schemas ?r1 name) = map_option Version (schemas r name)"
      by simp
    from False have reg: "registered L name (c # cs) r = registered L name cs ?r1"
      by (auto simp del: exec.simps)
    from IH same show ?thesis
      unfolding reg by (cases "schemas r name"; cases "schemas ?r1 name") auto
  qed
qed

subsection \<open>The default compatibility mode is never written\<close>

lemma exec_defaultCompat: "defaultCompat (snd (exec L c r)) = defaultCompat r"
  by (cases c) (auto simp: Register_def Delete_def SetCompatibility_def Let_def split: sum.splits option.splits)

lemma run_defaultCompat: "defaultCompat (run L cs r) = defaultCompat r"
  by (induction cs arbitrary: r) (simp_all add: exec_defaultCompat)

section \<open>Properties of the validation engine\<close>

text \<open>Each loop of the source, when it returns, has computed what the
  specification's wording describes; on a well-shaped schema it returns.\<close>

lemma enum_loop_Inr: "enum_loop es s = Inr b \<Longrightarrow> b = (JString s \<in> set es)"
  by (induction es s rule: enum_loop.induct) (auto split: jvalue.splits if_splits)

lemma enum_loop_total: "strings_only es \<Longrightarrow> enum_loop es s = Inr (JString s \<in> set es)"
  by (induction es s rule: enum_loop.induct) (auto simp: strings_only_def split: jvalue.splits)

lemma required_loop_Inr:
  "required_loop d req acc = Inr errs \<Longrightarrow>
   errs = acc @ [msg_required_missing n. JString n \<leftarrow> req, n \<notin> fst ` set d]"
proof (induction d req acc rule: required_loop.induct)
  case (1 d acc)
  then show ?case by simp
next
  case (2 d field rest acc)
  then show ?case
    by (cases field) (auto simp: map_of_eq_None_iff split: if_splits)
qed

lemma required_loop_total:
  "strings_only req \<Longrightarrow> \<exists>errs. required_loop d req acc = Inr errs"
proof (induction d req acc rule: required_loop.induct)
  case (1 d acc)
  then show ?case by simp
next
  case (2 d field rest acc)
  then show ?case
    by (cases field) (auto simp: strings_only_def)
qed

lemma validateField_Inr:
  assumes "validateField L k v p = Inr res"
  shows "spec_field_errors L k v p = (case res of None \<Rightarrow> [] | Some e \<Rightarrow> [e])"
proof (cases "map_of p ''type''")
  case None
  with assms show ?thesis
    by (auto simp: validateField_def spec_field_errors_def spec_declared_type_def)
next
  case (Some tv)
  show ?thesis
  proof (cases tv)
    case (JString ty)
    with Some have ty: "map_of p ''type'' = Some (JString ty)" by simp
    consider "ty = ''string''" | "ty = ''number''" | "ty = ''boolean''" | "ty = ''object''"
      | "ty = ''array''" | "ty \<notin> set spec_checked_types"
      by (auto simp: spec_checked_types_def)
    then show ?thesis
    proof cases
      case 1
      with assms ty show ?thesis
        by (cases v)
           (auto simp: validateField_def spec_field_errors_def spec_declared_type_def
              spec_checked_types_def spec_type_of_def
              dest: enum_loop_Inr split: option.splits jvalue.splits sum.splits if_splits)
    next
      case 2
      with assms ty show ?thesis
        by (cases v)
           (auto simp: validateField_def spec_field_errors_def spec_declared_type_def
              spec_checked_types_def spec_type_of_def
              split: option.splits jvalue.splits if_splits)
    next
      case 3
      with assms ty show ?thesis
        by (cases v)
           (auto simp: validateField_def spec_field_errors_def spec_declared_type_def
              spec_checked_types_def spec_type_of_def split: option.splits jvalue.splits)
    next
      case 4
      with assms ty show ?thesis
        by (cases v)
           (auto simp: validateField_def spec_field_errors_def spec_declared_type_def
              spec_checked_types_def spec_type_of_def split: option.splits jvalue.splits)
    next
      case 5
      with assms ty show ?thesis
        by (cases v)
           (auto simp: validateField_def spec_field_errors_def spec_declared_type_def
              spec_checked_types_def spec_type_of_def split: option.splits jvalue.splits)
    next
      case 6
      with assms ty show ?thesis
        by (auto simp: validateField_def spec_field_errors_def spec_declared_type_def
              spec_checked_types_def)
    qed
  qed (use assms Some in \<open>auto simp: validateField_def spec_field_errors_def spec_declared_type_def\<close>)
qed

lemma validateField_total:
  assumes "well_shaped_property (JObject p)"
  shows "\<exists>res. validateField L k v p = Inr res"
proof -
  have e: "\<And>es s. map_of p ''enum'' = Some (JArray es) \<Longrightarrow> enum_loop es s = Inr (JString s \<in> set es)"
    using assms by (auto simp: well_shaped_property_def intro: enum_loop_total)
  show ?thesis
    unfolding validateField_def Let_def
    by (auto simp: e split: jvalue.splits option.splits)
qed

lemma properties_loop_Inr:
  "properties_loop L props d acc = Inr errs \<Longrightarrow>
   errs = acc @ concat (map (\<lambda>(k, v). case map_of props k of
                                   Some (JObject prop) \<Rightarrow> spec_field_errors L k v prop
                                 | _ \<Rightarrow> []) d)"
proof (induction L props d acc rule: properties_loop.induct)
  case (1 L props acc)
  then show ?case by simp
next
  case (2 L props k v rest acc)
  show ?case
  proof (cases "map_of props k")
    case None
    with 2 show ?thesis by simp
  next
    case (Some pd)
    show ?thesis
    proof (cases pd)
      case (JObject pm)
      show ?thesis
      proof (cases "validateField L k v pm")
        case (Inl p)
        with 2 Some JObject show ?thesis by simp
      next
        case (Inr res)
        note f = validateField_Inr[OF Inr]
        show ?thesis
        proof (cases res)
          case None
          with 2 Some JObject Inr f show ?thesis by simp
        next
          case (Some e)
          with 2 \<open>map_of props k = Some pd\<close> JObject Inr f show ?thesis by simp
        qed
      qed
    qed (use 2 Some in simp_all)
  qed
qed

lemma properties_loop_total:
  assumes "list_all (\<lambda>(k, p). well_shaped_property p) props"
  shows "\<exists>errs. properties_loop L props d acc = Inr errs"
proof (induction d arbitrary: acc)
  case Nil
  show ?case by simp
next
  case (Cons kv rest)
  obtain k v where kv: "kv = (k, v)" by (cases kv)
  show ?case
  proof (cases "map_of props k")
    case None
    with kv Cons.IH show ?thesis by simp
  next
    case (Some pd)
    then have "(k, pd) \<in> set props" by (rule map_of_SomeD)
    with assms have ws: "well_shaped_property pd" by (auto simp: list_all_iff)
    then obtain pm where pm: "pd = JObject pm" by (cases pd) (simp_all add: well_shaped_property_def)
    from ws pm validateField_total obtain res where res: "validateField L k v pm = Inr res" by blast
    show ?thesis
      using kv Some pm res Cons.IH by (cases res) simp_all
  qed
qed

lemma validateJSON_total:
  assumes ws: "\<forall>sm. Unmarshal_map L (Schema schema) = Inr sm \<longrightarrow> well_shaped sm"
  shows "\<exists>res. validateJSON L schema data = Inr res"
proof (cases "Unmarshal_map L data")
  case (Inl e)
  then show ?thesis by (simp add: validateJSON_def)
next
  case p: (Inr p)
  show ?thesis
  proof (cases "Unmarshal_map L (Schema schema)")
    case (Inl e)
    with p show ?thesis by (simp add: validateJSON_def)
  next
    case sm: (Inr sm)
    with ws have w: "well_shaped sm" by simp
    have "\<exists>errs1. (case map_of sm ''required'' of
                    Some (JArray required) \<Rightarrow> required_loop p required []
                  | _ \<Rightarrow> Inr []) = Inr errs1"
      using w required_loop_total[of _ p "[]"]
      by (auto simp: well_shaped_def split: option.splits jvalue.splits)
    then obtain errs1 where e1: "(case map_of sm ''required'' of
                    Some (JArray required) \<Rightarrow> required_loop p required []
                  | _ \<Rightarrow> Inr []) = Inr errs1" by blast
    have "\<exists>errs. (case map_of sm ''properties'' of
                         Some (JObject properties) \<Rightarrow> properties_loop L properties p errs1
                       | _ \<Rightarrow> Inr errs1) = Inr errs"
      using w properties_loop_total[of _ L p errs1]
      by (auto simp: well_shaped_def split: option.splits jvalue.splits)
    then obtain errs where e2: "(case map_of sm ''properties'' of
                         Some (JObject properties) \<Rightarrow> properties_loop L properties p errs1
                       | _ \<Rightarrow> Inr errs1) = Inr errs" by blast
    show ?thesis
      using p sm e1 e2 by (simp add: validateJSON_def)
  qed
qed

text \<open>A result of \<open>validateJSON\<close> is the one the specification's wording
  describes.\<close>

lemma validateJSON_Inr:
  assumes "validateJSON L schema data = Inr res"
  shows "res = spec_validate L (Schema schema) data"
proof (cases "Unmarshal_map L data")
  case (Inl e)
  with assms show ?thesis by (auto simp: validateJSON_def spec_validate_def)
next
  case p: (Inr p)
  show ?thesis
  proof (cases "Unmarshal_map L (Schema schema)")
    case (Inl e)
    with assms p show ?thesis by (auto simp: validateJSON_def spec_validate_def)
  next
    case sm: (Inr sm)
    let ?req = "(case map_of sm ''required'' of
                      Some (JArray required) \<Rightarrow> required_loop p required []
                    | _ \<Rightarrow> Inr [])"
    from assms p sm obtain errs1 where e1: "?req = Inr errs1"
      by (cases ?req) (simp_all add: validateJSON_def)
    have s1: "errs1 = spec_required_errors sm p"
      using e1 required_loop_Inr[of p _ "[]" errs1]
      by (auto simp: spec_required_errors_def split: option.splits jvalue.splits)
    let ?pl = "(case map_of sm ''properties'' of
                           Some (JObject properties) \<Rightarrow> properties_loop L properties p errs1
                         | _ \<Rightarrow> Inr errs1)"
    from assms p sm e1 obtain errs where e2: "?pl = Inr errs"
      by (cases ?pl) (simp_all add: validateJSON_def)
    have s2: "errs = errs1 @ spec_property_errors L sm p"
      using e2 properties_loop_Inr[of L _ p errs1 errs]
      by (auto simp: spec_property_errors_def split: option.splits jvalue.splits)
    from assms p sm e1 e2 have "res = (if length errs > 0 then
                         \<lparr>Valid = False, Errors = errs,
                              Message = itoa (int (length errs)) @ lit_n_errors\<rparr>
                       else \<lparr>Valid = True, Errors = [], Message = lit_success\<rparr>)"
      by (auto simp: validateJSON_def)
    with s1 s2 p sm show ?thesis
      by (auto simp: spec_validate_def Let_def)
  qed
qed

text \<open>For a schema of kind JSON, \<^verbatim>\<open>Validate\<close> is \<^verbatim>\<open>validateJSON\<close> on the
  schema that \<^verbatim>\<open>Get\<close> returns.\<close>

lemma Validate_JSON_kind:
  assumes "schemas r name = Some s" and "Type s = SchemaTypeJSON"
  shows "Validate L r name data = validateJSON L s data"
  using assms by (simp add: Validate_def Get_def)

section \<open>The session, evaluated\<close>

lemma demo_decode:
  "json_Unmarshal demo_lib doc_schema = Inr (JObject
         [(''required'', JArray [JString ''id'']),
          (''properties'', JObject
             [(''id'', JObject [(''type'', JString ''string''),
                                (''enum'', JArray [JString ''a'', JString ''b''])]),
              (''n'', JObject [(''type'', JString ''number''), (''minimum'', JNumber 0)])])])"
  "json_Unmarshal demo_lib doc_good = Inr (JObject [(''id'', JString ''a''), (''n'', JNumber 1)])"
  "json_Unmarshal demo_lib doc_bad = Inr (JObject [(''n'', JNumber (- 5))])"
  "json_Unmarshal demo_lib doc_ill_shaped = Inr (JObject [(''required'', JArray [JNumber 1])])"
  "json_Unmarshal demo_lib doc_truncated = Inl ''unexpected end of JSON input''"
  by (simp_all add: demo_lib_def demo_table_def doc_schema_def doc_good_def doc_bad_def
        doc_ill_shaped_def doc_truncated_def)

lemmas demo_simps = demo_decode demo_session_def demo_pre_def
  Register_def Delete_def SetCompatibility_def
  NewSchemaRegistry_def versions_at_def snapshot_def Let_def
  SchemaTypeJSON_def SchemaTypeAvro_def SchemaTypeProtobuf_def
  CompatibilityFull_def CompatibilityBackward_def

lemma demo_store_eval:
  "nextID demo_store = 5"
  "schemas demo_store ''OrderEvent'' = Some demo_schema"
  "schemas demo_store ''Audit'' =
     Some \<lparr>ID = 4, Name = ''Audit'', Version = 1, Type = SchemaTypeProtobuf, Schema = '''',
       Compatibility = CompatibilityBackward, Description = '''', CreatedAt = 300,
       UpdatedAt = 300\<rparr>"
  "versions demo_store ''OrderEvent'' =
     Some [\<lparr>sv_Version = 1, sv_Schema = doc_schema, sv_CreatedAt = 100\<rparr>]"
  "versions demo_store ''Audit'' = None"
  by (simp_all add: demo_store_def demo_schema_def demo_simps)

lemma demo_store2_eval:
  "nextID demo_store2 = 3"
  "defaultCompat demo_store2 = CompatibilityBackward"
  "schemas demo_store2 ''OrderEvent'' =
     Some \<lparr>ID = 1, Name = ''OrderEvent'', Version = 1, Type = SchemaTypeJSON,
       Schema = doc_schema, Compatibility = CompatibilityFull, Description = ''orders'',
       CreatedAt = 100, UpdatedAt = 100\<rparr>"
  "schemas demo_store2 ''Audit'' =
     Some \<lparr>ID = 2, Name = ''Audit'', Version = 1, Type = SchemaTypeAvro, Schema = '''',
       Compatibility = CompatibilityBackward, Description = '''', CreatedAt = 150,
       UpdatedAt = 150\<rparr>"
  "versions demo_store2 ''OrderEvent'' = None"
  by (simp_all add: demo_store2_def demo_simps)

lemma demo_bump:
  "fst (Register demo_lib demo_store2 ''OrderEvent'' SchemaTypeJSON doc_schema None 200) = None"
  "schemas (snd (Register demo_lib demo_store2 ''OrderEvent'' SchemaTypeJSON doc_schema None 200))
     ''OrderEvent'' = Some demo_schema"
  "versions (snd (Register demo_lib demo_store2 ''OrderEvent'' SchemaTypeJSON doc_schema None 200))
     ''OrderEvent'' = Some [\<lparr>sv_Version = 1, sv_Schema = doc_schema, sv_CreatedAt = 100\<rparr>]"
  by (simp_all add: Register_def demo_store2_eval demo_decode demo_schema_def Let_def
        versions_at_def snapshot_def SchemaTypeJSON_def)

lemma demo_unmarshal_map:
  "Unmarshal_map demo_lib doc_schema = Inr
         [(''required'', JArray [JString ''id'']),
          (''properties'', JObject
             [(''id'', JObject [(''type'', JString ''string''),
                                (''enum'', JArray [JString ''a'', JString ''b''])]),
              (''n'', JObject [(''type'', JString ''number''), (''minimum'', JNumber 0)])])]"
  "Unmarshal_map demo_lib doc_good = Inr [(''id'', JString ''a''), (''n'', JNumber 1)]"
  "Unmarshal_map demo_lib doc_bad = Inr [(''n'', JNumber (- 5))]"
  "Unmarshal_map demo_lib doc_ill_shaped = Inr [(''required'', JArray [JNumber 1])]"
  "Unmarshal_map demo_lib doc_truncated = Inl ''unexpected end of JSON input''"
  by (simp_all add: Unmarshal_map_def demo_decode)

lemma demo_well_shaped:
  "well_shaped
         [(''required'', JArray [JString ''id'']),
          (''properties'', JObject
             [(''id'', JObject [(''type'', JString ''string''),
                                (''enum'', JArray [JString ''a'', JString ''b''])]),
              (''n'', JObject [(''type'', JString ''number''), (''minimum'', JNumber 0)])])]"
  by (simp add: well_shaped_def well_shaped_property_def strings_only_def)

lemma demo_validate_bad:
  "validateJSON demo_lib demo_schema doc_bad =
     Inr \<lparr>Valid = False,
          Errors = [msg_required_missing ''id'', msg_below_minimum demo_lib ''n'' 0],
          Message = ''2'' @ lit_n_errors\<rparr>"
  by (simp add: validateJSON_def demo_schema_def demo_unmarshal_map validateField_def
        itoa_def digits.simps)

lemma demo_validate_good:
  "validateJSON demo_lib demo_schema doc_good =
     Inr \<lparr>Valid = True, Errors = [], Message = lit_success\<rparr>"
  by (simp add: validateJSON_def demo_schema_def demo_unmarshal_map validateField_def)

text \<open>Without the shape condition a type assertion can fail: the
  \<^verbatim>\<open>required\<close> array of this schema holds a number, and validation panics on
  every payload that decodes.\<close>

lemma demo_validate_panics:
  "validateJSON demo_lib (demo_schema\<lparr>Schema := doc_ill_shaped\<rparr>) doc_good =
     Inl InterfaceConversion"
  by (simp add: validateJSON_def demo_schema_def demo_unmarshal_map)

section \<open>The claims of the specification\<close>

text \<open>
  \<^bold>\<open>C1.\<close> Version monotonicity. Take a reachable store in which \<open>name\<close> has no
  current schema, and run any sequence of calls that does not delete \<open>name\<close>
  (calls for other names, failed calls and compatibility changes may be
  interleaved). If \<open>n\<close> of its \<^verbatim>\<open>Register\<close> calls for \<open>name\<close> succeed, the
  current version is \<open>n\<close>, and \<^verbatim>\<open>GetVersions\<close> returns exactly \<open>n\<close> records,
  the history followed by the current version, whose versions are
  \<open>1, 2, \<dots>, n\<close> in this order. As the statement holds for every prefix of
  the sequence, the \<open>k\<close>-th successful call installs version \<open>k\<close>. Each
  re-registration installs the existing version plus one and appends the
  previous current schema to the history.
\<close>

theorem Register_versions_contiguous:
  assumes "r0 = run L pre NewSchemaRegistry"
    and "schemas r0 name = None"
    and "OpDelete name \<notin> set cs"
  shows "(registered L name cs r0 = 0 \<longrightarrow> GetVersions (run L cs r0) name = Inl (NotFound name))
    \<and> (0 < registered L name cs r0 \<longrightarrow>
         (\<exists>cur vs. schemas (run L cs r0) name = Some cur
            \<and> Version cur = int (registered L name cs r0)
            \<and> GetVersions (run L cs r0) name = Inr vs
            \<and> vs = versions_at (run L cs r0) name @ [snapshot cur]
            \<and> length vs = registered L name cs r0
            \<and> map sv_Version vs = [1 .. int (registered L name cs r0)]
            \<and> sorted_wrt (<) (map sv_Version vs)))
    \<and> (\<forall>old ty schema opts now r'.
          schemas (run L cs r0) name = Some old
          \<and> Register L (run L cs r0) name ty schema opts now = (None, r') \<longrightarrow>
          map_option Version (schemas r' name) = Some (Version old + 1)
          \<and> versions_at r' name = versions_at (run L cs r0) name @ [snapshot old])"
proof -
  let ?r = "run L cs r0" and ?n = "registered L name cs r0"
  have ok: "versions_ok ?r name"
    unfolding assms(1) by (intro run_versions_ok New_versions_ok)
  have cur: "map_option Version (schemas ?r name) = (if ?n = 0 then None else Some (int ?n))"
    using run_current_version[OF assms(3), of L r0] assms(2) by simp
  have a: "?n = 0 \<longrightarrow> GetVersions ?r name = Inl (NotFound name)"
    using cur by (cases "schemas ?r name") (auto simp: GetVersions_def split: if_splits)
  have b: "0 < ?n \<longrightarrow>
         (\<exists>cur vs. schemas ?r name = Some cur \<and> Version cur = int ?n
            \<and> GetVersions ?r name = Inr vs
            \<and> vs = versions_at ?r name @ [snapshot cur]
            \<and> length vs = ?n
            \<and> map sv_Version vs = [1 .. int ?n]
            \<and> sorted_wrt (<) (map sv_Version vs))"
  proof
    assume pos: "0 < ?n"
    with cur obtain c where c: "schemas ?r name = Some c" "Version c = int ?n" by auto
    let ?vs = "versions_at ?r name @ [snapshot c]"
    from ok c have h: "map sv_Version (versions_at ?r name) = [1 .. int ?n - 1]"
      by (simp add: versions_ok_def)
    have m: "map sv_Version ?vs = [1 .. int ?n]"
      using h pos upto_snoc[of "int ?n"] by (simp add: snapshot_def c)
    have "length (map sv_Version ?vs) = ?n" unfolding m by simp
    then have l: "length ?vs = ?n" by simp
    have s: "sorted_wrt (<) (map sv_Version ?vs)" unfolding m by (rule sorted_wrt_upto)
    have g: "GetVersions ?r name = Inr ?vs" using c by (simp add: GetVersions_def)
    from c g l m s show "\<exists>cur vs. schemas ?r name = Some cur \<and> Version cur = int ?n
            \<and> GetVersions ?r name = Inr vs
            \<and> vs = versions_at ?r name @ [snapshot cur]
            \<and> length vs = ?n
            \<and> map sv_Version vs = [1 .. int ?n]
            \<and> sorted_wrt (<) (map sv_Version vs)" by blast
  qed
  have c: "\<forall>old ty schema opts now r'.
          schemas ?r name = Some old \<and> Register L ?r name ty schema opts now = (None, r') \<longrightarrow>
          map_option Version (schemas r' name) = Some (Version old + 1)
          \<and> versions_at r' name = versions_at ?r name @ [snapshot old]"
  proof (intro allI impI, elim conjE)
    fix old ty schema opts now r'
    assume o: "schemas ?r name = Some old" and reg: "Register L ?r name ty schema opts now = (None, r')"
    from Register_ok_schemas[OF reg] o have "map_option Version (schemas r' name) = Some (Version old + 1)"
      by auto
    moreover from Register_ok_frame(4)[OF reg] o have "versions_at r' name = versions_at ?r name @ [snapshot old]"
      by (simp add: versions_at_def)
    ultimately show "map_option Version (schemas r' name) = Some (Version old + 1)
          \<and> versions_at r' name = versions_at ?r name @ [snapshot old]" by simp
  qed
  from a b c show ?thesis by blast
qed

theorem Register_versions_contiguous_witness:
  "schemas (run demo_lib demo_pre NewSchemaRegistry) ''OrderEvent'' = None
   \<and> OpDelete ''OrderEvent'' \<notin> set demo_session
   \<and> registered demo_lib ''OrderEvent'' demo_session (run demo_lib demo_pre NewSchemaRegistry) = 2
   \<and> GetVersions (run demo_lib demo_session (run demo_lib demo_pre NewSchemaRegistry))
         ''OrderEvent''
       = Inr [\<lparr>sv_Version = 1, sv_Schema = doc_schema, sv_CreatedAt = 100\<rparr>,
              \<lparr>sv_Version = 2, sv_Schema = doc_schema, sv_CreatedAt = 200\<rparr>]
   \<and> map_option Version
         (schemas (run demo_lib demo_session (run demo_lib demo_pre NewSchemaRegistry))
            ''OrderEvent'') = Some 2"
proof -
  let ?r0 = "run demo_lib demo_pre NewSchemaRegistry"
  have h1: "schemas ?r0 ''OrderEvent'' = None"
    by (simp add: demo_simps)
  have h2: "OpDelete ''OrderEvent'' \<notin> set demo_session"
    by (simp add: demo_session_def)
  have n: "registered demo_lib ''OrderEvent'' demo_session ?r0 = 2"
    by (simp add: demo_simps)
  have hist: "versions_at (run demo_lib demo_session ?r0) ''OrderEvent''
                = [\<lparr>sv_Version = 1, sv_Schema = doc_schema, sv_CreatedAt = 100\<rparr>]"
    by (simp add: demo_simps)
  have cur: "schemas (run demo_lib demo_session ?r0) ''OrderEvent''
               = Some (demo_schema\<lparr>ID := 4\<rparr>)"
    by (simp add: demo_simps demo_schema_def)
  from Register_versions_contiguous[OF refl h1 h2] n hist cur h1 h2 show ?thesis
    by (simp add: snapshot_def demo_schema_def)
qed

text \<open>
  \<^bold>\<open>C2\<close> (amended). The JSON validation algorithm. For a schema of kind JSON
  stored under the name, whenever \<^verbatim>\<open>Validate\<close> returns a result, it is the
  result the specification describes (\<open>spec_validate\<close>): the payload is
  decoded, then the schema; if both decode, there is one error for every
  required name missing from the payload, followed by one for every payload
  entry whose key is a property and whose value fails the check of the declared
  type (a string that is no string or no member of a declared enum array, a
  number that is no number or lies below a declared minimum, a boolean, object
  or array of another kind; other declared types pass). The result is valid
  exactly when it has no errors. If both documents decode, the message is the
  success message or the count of errors followed by the error-count message;
  if the payload does not decode, the result is invalid with the single error
  "JSON parsing failed" and the message "invalid JSON format"; if the payload
  decodes and the schema does not, it is invalid with the single error "schema
  parsing failed" and the message "invalid schema format". On a well-shaped
  schema \<^verbatim>\<open>Validate\<close> does return.
\<close>

theorem Validate_JSON_follows_algorithm:
  assumes "schemas r name = Some s" and "Type s = SchemaTypeJSON"
  shows "(\<forall>res. Validate L r name data = Inr res \<longrightarrow>
       res = spec_validate L (Schema s) data
       \<and> (Valid res \<longleftrightarrow> Errors res = [])
       \<and> (Valid res \<longleftrightarrow> length (Errors res) = 0)
       \<and> (\<forall>p sm. Unmarshal_map L data = Inr p \<and> Unmarshal_map L (Schema s) = Inr sm \<longrightarrow>
            Errors res = spec_required_errors sm p @ spec_property_errors L sm p
            \<and> Message res = (if Valid res then lit_success
                             else itoa (int (length (Errors res))) @ lit_n_errors))
       \<and> (\<forall>e. Unmarshal_map L data = Inl e \<longrightarrow>
            res = \<lparr>Valid = False, Errors = [lit_json_parse_failed @ e],
                   Message = lit_bad_json_format\<rparr>)
       \<and> (\<forall>p e. Unmarshal_map L data = Inr p \<and> Unmarshal_map L (Schema s) = Inl e \<longrightarrow>
            res = \<lparr>Valid = False, Errors = [lit_schema_parse_failed @ e],
                   Message = lit_bad_schema_format\<rparr>))
   \<and> ((\<forall>sm. Unmarshal_map L (Schema s) = Inr sm \<longrightarrow> well_shaped sm) \<longrightarrow>
        Validate L r name data = Inr (spec_validate L (Schema s) data))"
proof -
  have v: "Validate L r name data = validateJSON L s data"
    using assms by (rule Validate_JSON_kind)
  have form: "(Valid (spec_validate L (Schema s) data) \<longleftrightarrow> Errors (spec_validate L (Schema s) data) = [])
       \<and> (\<forall>p sm. Unmarshal_map L data = Inr p \<and> Unmarshal_map L (Schema s) = Inr sm \<longrightarrow>
            Errors (spec_validate L (Schema s) data)
              = spec_required_errors sm p @ spec_property_errors L sm p
            \<and> Message (spec_validate L (Schema s) data)
              = (if Valid (spec_validate L (Schema s) data) then lit_success
                 else itoa (int (length (Errors (spec_validate L (Schema s) data)))) @ lit_n_errors))
       \<and> (\<forall>e. Unmarshal_map L data = Inl e \<longrightarrow>
            spec_validate L (Schema s) data
              = \<lparr>Valid = False, Errors = [lit_json_parse_failed @ e],
                 Message = lit_bad_json_format\<rparr>)
       \<and> (\<forall>p e. Unmarshal_map L data = Inr p \<and> Unmarshal_map L (Schema s) = Inl e \<longrightarrow>
            spec_validate L (Schema s) data
              = \<lparr>Valid = False, Errors = [lit_schema_parse_failed @ e],
                 Message = lit_bad_schema_format\<rparr>)"
    by (auto simp: spec_validate_def Let_def split: sum.splits)
  have part1: "\<forall>res. Validate L r name data = Inr res \<longrightarrow>
       res = spec_validate L (Schema s) data
       \<and> (Valid res \<longleftrightarrow> Errors res = [])
       \<and> (Valid res \<longleftrightarrow> length (Errors res) = 0)
       \<and> (\<forall>p sm. Unmarshal_map L data = Inr p \<and> Unmarshal_map L (Schema s) = Inr sm \<longrightarrow>
            Errors res = spec_required_errors sm p @ spec_property_errors L sm p
            \<and> Message res = (if Valid res then lit_success
                             else itoa (int (length (Errors res))) @ lit_n_errors))
       \<and> (\<forall>e. Unmarshal_map L data = Inl e \<longrightarrow>
            res = \<lparr>Valid = False, Errors = [lit_json_parse_failed @ e],
                   Message = lit_bad_json_format\<rparr>)
       \<and> (\<forall>p e. Unmarshal_map L data = Inr p \<and> Unmarshal_map L (Schema s) = Inl e \<longrightarrow>
            res = \<lparr>Valid = False, Errors = [lit_schema_parse_failed @ e],
                   Message = lit_bad_schema_format\<rparr>)"
  proof (intro allI impI)
    fix res assume "Validate L r name data = Inr res"
    with v have "validateJSON L s data = Inr res" by simp
    then have res: "res = spec_validate L (Schema s) data" by (rule validateJSON_Inr)
    show "res = spec_validate L (Schema s) data
       \<and> (Valid res \<longleftrightarrow> Errors res = [])
       \<and> (Valid res \<longleftrightarrow> length (Errors res) = 0)
       \<and> (\<forall>p sm. Unmarshal_map L data = Inr p \<and> Unmarshal_map L (Schema s) = Inr sm \<longrightarrow>
            Errors res = spec_required_errors sm p @ spec_property_errors L sm p
            \<and> Message res = (if Valid res then lit_success
                             else itoa (int (length (Errors res))) @ lit_n_errors))
       \<and> (\<forall>e. Unmarshal_map L data = Inl e \<longrightarrow>
            res = \<lparr>Valid = False, Errors = [lit_json_parse_failed @ e],
                   Message = lit_bad_json_format\<rparr>)
       \<and> (\<forall>p e. Unmarshal_map L data = Inr p \<and> Unmarshal_map L (Schema s) = Inl e \<longrightarrow>
            res = \<lparr>Valid = False, Errors = [lit_schema_parse_failed @ e],
                   Message = lit_bad_schema_format\<rparr>)"
      unfolding res using form by auto
  qed
  have total: "Validate L r name data = Inr (spec_validate L (Schema s) data)"
    if ws: "\<forall>sm. Unmarshal_map L (Schema s) = Inr sm \<longrightarrow> well_shaped sm"
    using validateJSON_total[OF ws, of data] validateJSON_Inr[of L s data] v by auto
  from part1 total show ?thesis by blast
qed

theorem Validate_JSON_follows_algorithm_witness:
  "schemas demo_store ''OrderEvent'' = Some demo_schema
   \<and> Type demo_schema = SchemaTypeJSON
   \<and> Unmarshal_map demo_lib (Schema demo_schema) = Inr
         [(''required'', JArray [JString ''id'']),
          (''properties'', JObject
             [(''id'', JObject [(''type'', JString ''string''),
                                (''enum'', JArray [JString ''a'', JString ''b''])]),
              (''n'', JObject [(''type'', JString ''number''), (''minimum'', JNumber 0)])])]
   \<and> well_shaped
         [(''required'', JArray [JString ''id'']),
          (''properties'', JObject
             [(''id'', JObject [(''type'', JString ''string''),
                                (''enum'', JArray [JString ''a'', JString ''b''])]),
              (''n'', JObject [(''type'', JString ''number''), (''minimum'', JNumber 0)])])]
   \<and> Validate demo_lib demo_store ''OrderEvent'' doc_bad
       = Inr (spec_validate demo_lib doc_schema doc_bad)
   \<and> spec_validate demo_lib doc_schema doc_bad =
       \<lparr>Valid = False,
        Errors = [msg_required_missing ''id'', msg_below_minimum demo_lib ''n'' 0],
        Message = ''2'' @ lit_n_errors\<rparr>
   \<and> Validate demo_lib demo_store ''OrderEvent'' doc_good
       = Inr \<lparr>Valid = True, Errors = [], Message = lit_success\<rparr>"
proof -
  have s: "Schema demo_schema = doc_schema" and t: "Type demo_schema = SchemaTypeJSON"
    by (simp_all add: demo_schema_def)
  have ws: "\<forall>sm. Unmarshal_map demo_lib (Schema demo_schema) = Inr sm \<longrightarrow> well_shaped sm"
    using demo_well_shaped by (simp add: s demo_unmarshal_map)
  note th = Validate_JSON_follows_algorithm[OF demo_store_eval(2) t, of demo_lib]
  from th[of doc_bad] ws
  have bad: "Validate demo_lib demo_store ''OrderEvent'' doc_bad
          = Inr (spec_validate demo_lib (Schema demo_schema) doc_bad)"
    by blast
  from th[of doc_good] ws
  have good: "Validate demo_lib demo_store ''OrderEvent'' doc_good
          = Inr (spec_validate demo_lib (Schema demo_schema) doc_good)"
    by blast
  have vb: "Validate demo_lib demo_store ''OrderEvent'' doc_bad
              = validateJSON demo_lib demo_schema doc_bad"
    and vg: "Validate demo_lib demo_store ''OrderEvent'' doc_good
              = validateJSON demo_lib demo_schema doc_good"
    using demo_store_eval(2) t by (simp_all add: Validate_JSON_kind)
  from bad good vb vg demo_validate_bad demo_validate_good demo_well_shaped show ?thesis
    by (simp add: s t demo_unmarshal_map demo_store_eval)
qed

text \<open>
  As worded, C2 gives every result the message "validation succeeded" or
  "N validation error(s)". In the session, the first name holds a schema of
  kind JSON; validating a truncated payload against it returns one error under
  the message "invalid JSON format", which is neither the success message nor
  the count 1 followed by the error-count message.
\<close>

theorem Validate_parse_failure_message:
  "map_option Type (schemas demo_store ''OrderEvent'') = Some SchemaTypeJSON
   \<and> Validate demo_lib demo_store ''OrderEvent'' doc_truncated
       = Inr \<lparr>Valid = False,
              Errors = [lit_json_parse_failed @ ''unexpected end of JSON input''],
              Message = lit_bad_json_format\<rparr>
   \<and> lit_bad_json_format \<noteq> lit_success
   \<and> lit_bad_json_format \<noteq> itoa 1 @ lit_n_errors"
  by (simp add: demo_store_eval demo_schema_def Validate_def Get_def validateJSON_def
        demo_unmarshal_map lit_bad_json_format_def lit_success_def lit_n_errors_def
        itoa_def digits.simps)

text \<open>
  \<^bold>\<open>C3.\<close> Id monotonicity. Over any sequence of registrations, deletions and
  compatibility changes from the empty store, the ids handed out by the
  successful \<^verbatim>\<open>Register\<close> calls (version bumps included) are
  \<open>1, 2, 3, \<dots>\<close> up to the counter: strictly increasing, hence never handed
  out twice, also after a deletion. In the store reached, no two current
  schemas hold the same id, every id held lies below the counter, no further
  call decreases the counter, a successful \<^verbatim>\<open>Register\<close> stores the
  counter's value as the id and increments the counter, and \<^verbatim>\<open>Delete\<close>
  leaves the counter alone. The counter is at least 1 and exceeds the number of
  calls made by at most 1, so that it stays in the range of a 64-bit
  \<^verbatim>\<open>int\<close> for every sequence of fewer than \<open>2^63 - 1\<close> calls.
\<close>

theorem ids_issued_strictly_increasing:
  "issued L cs NewSchemaRegistry = [1 .. nextID (run L cs NewSchemaRegistry) - 1]
   \<and> sorted_wrt (<) (issued L cs NewSchemaRegistry)
   \<and> distinct (issued L cs NewSchemaRegistry)
   \<and> (\<forall>n m s t. schemas (run L cs NewSchemaRegistry) n = Some s
          \<and> schemas (run L cs NewSchemaRegistry) m = Some t \<and> ID s = ID t \<longrightarrow> n = m)
   \<and> (\<forall>n s. schemas (run L cs NewSchemaRegistry) n = Some s \<longrightarrow>
          1 \<le> ID s \<and> ID s < nextID (run L cs NewSchemaRegistry))
   \<and> (\<forall>c. nextID (run L cs NewSchemaRegistry)
            \<le> nextID (snd (exec L c (run L cs NewSchemaRegistry))))
   \<and> (\<forall>name ty schema opts now r'.
          Register L (run L cs NewSchemaRegistry) name ty schema opts now = (None, r') \<longrightarrow>
          map_option ID (schemas r' name) = Some (nextID (run L cs NewSchemaRegistry))
          \<and> nextID r' = nextID (run L cs NewSchemaRegistry) + 1)
   \<and> (\<forall>name. nextID (snd (Delete (run L cs NewSchemaRegistry) name))
               = nextID (run L cs NewSchemaRegistry))
   \<and> 1 \<le> nextID (run L cs NewSchemaRegistry)
   \<and> nextID (run L cs NewSchemaRegistry) \<le> 1 + int (length cs)
   \<and> (int (length cs) < 2 ^ 63 - 1 \<longrightarrow> nextID (run L cs NewSchemaRegistry) < 2 ^ 63)"
proof -
  let ?r = "run L cs NewSchemaRegistry"
  have a: "issued L cs NewSchemaRegistry = [1 .. nextID ?r - 1]"
    using issued_upto[of L cs NewSchemaRegistry] by (simp add: NewSchemaRegistry_def)
  have b: "sorted_wrt (<) (issued L cs NewSchemaRegistry)"
    unfolding a by (rule sorted_wrt_upto)
  have c: "distinct (issued L cs NewSchemaRegistry)"
    unfolding a by (rule distinct_upto)
  have inv: "ids_below ?r \<and> ids_unique ?r"
    by (rule run_ids) (rule New_ids)+
  have pos: "ids_positive ?r"
    by (rule run_ids_positive) (rule New_ids_positive)
  have d: "\<forall>n m s t. schemas ?r n = Some s \<and> schemas ?r m = Some t \<and> ID s = ID t \<longrightarrow> n = m"
    using inv unfolding ids_unique_def by blast
  have e: "\<forall>n s. schemas ?r n = Some s \<longrightarrow> 1 \<le> ID s \<and> ID s < nextID ?r"
    using inv pos unfolding ids_below_def ids_positive_def by blast
  have f: "\<forall>c. nextID ?r \<le> nextID (snd (exec L c ?r))"
    by (simp add: exec_nextID_mono)
  have g: "\<forall>name ty schema opts now r'.
          Register L ?r name ty schema opts now = (None, r') \<longrightarrow>
          map_option ID (schemas r' name) = Some (nextID ?r) \<and> nextID r' = nextID ?r + 1"
    using Register_ok_schemas Register_ok_frame(1) by fastforce
  have h: "\<forall>name. nextID (snd (Delete ?r name)) = nextID ?r"
    by (simp add: Delete_def split: option.splits)
  have lo: "1 \<le> nextID ?r"
    using pos by (simp add: ids_positive_def)
  have hi: "nextID ?r \<le> 1 + int (length cs)"
    using run_nextID_bound[of L cs NewSchemaRegistry] by (simp add: NewSchemaRegistry_def)
  have rng: "int (length cs) < 2 ^ 63 - 1 \<longrightarrow> nextID ?r < 2 ^ 63"
    using hi by simp
  from a b c d e f g h lo hi rng show ?thesis by blast
qed

theorem ids_issued_strictly_increasing_witness:
  "issued demo_lib demo_session NewSchemaRegistry = [1, 2, 3, 4]
   \<and> nextID (run demo_lib demo_session NewSchemaRegistry) = 5
   \<and> map_option ID (schemas (run demo_lib demo_session NewSchemaRegistry) ''OrderEvent'') = Some 3
   \<and> map_option ID (schemas (run demo_lib demo_session NewSchemaRegistry) ''Audit'') = Some 4
   \<and> fst (Register demo_lib demo_store2 ''OrderEvent'' SchemaTypeJSON doc_schema None 200) = None
   \<and> nextID (snd (Register demo_lib demo_store2 ''OrderEvent'' SchemaTypeJSON doc_schema None 200))
       = nextID demo_store2 + 1
   \<and> int (length demo_session) < 2 ^ 63 - 1"
proof -
  obtain e r' where reg:
    "Register demo_lib demo_store2 ''OrderEvent'' SchemaTypeJSON doc_schema None 200 = (e, r')"
    by (cases "Register demo_lib demo_store2 ''OrderEvent'' SchemaTypeJSON doc_schema None 200")
  with demo_bump(1) have ok:
    "Register demo_lib (run demo_lib (take 2 demo_session) NewSchemaRegistry)
       ''OrderEvent'' SchemaTypeJSON doc_schema None 200 = (None, r')"
    by (simp add: demo_store2_def)
  from ids_issued_strictly_increasing[of demo_lib "take 2 demo_session"] ok
  have "nextID r' = nextID demo_store2 + 1"
    unfolding demo_store2_def by blast
  moreover from ids_issued_strictly_increasing[of demo_lib demo_session]
  have "issued demo_lib demo_session NewSchemaRegistry
           = [1 .. nextID (run demo_lib demo_session NewSchemaRegistry) - 1]"
    by blast
  moreover from ok have "Register demo_lib demo_store2 ''OrderEvent'' SchemaTypeJSON doc_schema
      None 200 = (None, r')"
    by (simp add: demo_store2_def)
  moreover have "int (length demo_session) < 2 ^ 63 - 1"
    by (simp add: demo_session_def)
  ultimately show ?thesis
    using demo_store_eval
    by (simp add: demo_store_def[symmetric] demo_schema_def upto_rec1)
qed

text \<open>
  \<^bold>\<open>C4\<close> (amended). An id is assigned at every successful \<^verbatim>\<open>Register\<close>, not
  only at the first one for a name: after a successful re-registration of an
  existing name in a reachable store, the new current schema holds the value
  the counter had before the call, which is strictly greater than the id of the
  previous current schema and differs from the id of every other current
  schema.
\<close>

theorem Register_bump_allocates_fresh_id:
  assumes "r = run L cs NewSchemaRegistry"
    and "schemas r name = Some old"
    and "Register L r name ty schema opts now = (None, r')"
  shows "\<exists>new. schemas r' name = Some new \<and> ID new = nextID r \<and> ID old < ID new
           \<and> (\<forall>other s. schemas r' other = Some s \<and> other \<noteq> name \<longrightarrow> ID s \<noteq> ID new)"
proof -
  have inv: "ids_below r"
    unfolding assms(1) using run_ids[OF New_ids] by blast
  from Register_ok_schemas[OF assms(3)] obtain new where
    new: "schemas r' name = Some new" "ID new = nextID r" by blast
  from inv assms(2) have lt: "ID old < nextID r" by (auto simp: ids_below_def)
  have "\<forall>other s. schemas r' other = Some s \<and> other \<noteq> name \<longrightarrow> ID s \<noteq> ID new"
  proof (intro allI impI, elim conjE)
    fix other s assume "schemas r' other = Some s" "other \<noteq> name"
    with Register_ok_frame(2)[OF assms(3), of other] have "schemas r other = Some s" by simp
    with inv have "ID s < nextID r" by (auto simp: ids_below_def)
    with new show "ID s \<noteq> ID new" by simp
  qed
  with new lt show ?thesis by auto
qed

theorem Register_bump_allocates_fresh_id_witness:
  "demo_store2 = run demo_lib (take 2 demo_session) NewSchemaRegistry
   \<and> map_option ID (schemas demo_store2 ''OrderEvent'') = Some 1
   \<and> nextID demo_store2 = 3
   \<and> fst (Register demo_lib demo_store2 ''OrderEvent'' SchemaTypeJSON doc_schema None 200) = None
   \<and> (\<exists>new. schemas (snd (Register demo_lib demo_store2 ''OrderEvent'' SchemaTypeJSON doc_schema
                              None 200)) ''OrderEvent'' = Some new
          \<and> ID new = 3 \<and> (1::int) < ID new)"
proof -
  obtain e r' where reg:
    "Register demo_lib demo_store2 ''OrderEvent'' SchemaTypeJSON doc_schema None 200 = (e, r')"
    by (cases "Register demo_lib demo_store2 ''OrderEvent'' SchemaTypeJSON doc_schema None 200")
  with demo_bump(1) have ok:
    "Register demo_lib demo_store2 ''OrderEvent'' SchemaTypeJSON doc_schema None 200 = (None, r')"
    by simp
  from Register_bump_allocates_fresh_id[OF demo_store2_def demo_store2_eval(3) ok]
  obtain new where "schemas r' ''OrderEvent'' = Some new" "ID new = nextID demo_store2"
    "1 < ID new" by auto
  with ok demo_store2_eval show ?thesis
    by (simp add: demo_store2_def)
qed

text \<open>
  As worded, C4 asks for the id to be stable across version bumps. In the
  session, the first name holds id 1 after two registrations; its
  re-registration succeeds and leaves it with id 3.
\<close>

theorem Register_bump_id_not_stable:
  "map_option ID (schemas demo_store2 ''OrderEvent'') = Some 1
   \<and> fst (Register demo_lib demo_store2 ''OrderEvent'' SchemaTypeJSON doc_schema None 200) = None
   \<and> map_option ID
        (schemas (snd (Register demo_lib demo_store2 ''OrderEvent'' SchemaTypeJSON doc_schema None 200))
           ''OrderEvent'') = Some 3
   \<and> map_option ID
        (schemas (snd (Register demo_lib demo_store2 ''OrderEvent'' SchemaTypeJSON doc_schema None 200))
           ''OrderEvent'') \<noteq> map_option ID (schemas demo_store2 ''OrderEvent'')"
  by (simp add: demo_store2_eval demo_bump demo_schema_def)

text \<open>
  \<^bold>\<open>C5\<close> (amended). \<^verbatim>\<open>CreatedAt\<close> is the time of the registration that
  created the current version: after a successful re-registration of an existing
  name, \<^verbatim>\<open>CreatedAt\<close> and \<^verbatim>\<open>UpdatedAt\<close> of the new current schema are both
  the time of that call, and the previous \<^verbatim>\<open>CreatedAt\<close> lives on in the
  record appended to the history. \<^verbatim>\<open>SetCompatibility\<close> refreshes
  \<^verbatim>\<open>UpdatedAt\<close> and keeps \<^verbatim>\<open>CreatedAt\<close>, the version and the id.
\<close>

theorem Register_bump_sets_createdAt_to_now:
  "(\<forall>old r'. schemas r name = Some old \<and> Register L r name ty schema opts now = (None, r') \<longrightarrow>
      (\<exists>new. schemas r' name = Some new \<and> CreatedAt new = now \<and> UpdatedAt new = now)
      \<and> versions_at r' name = versions_at r name @ [snapshot old]
      \<and> sv_CreatedAt (snapshot old) = CreatedAt old)
   \<and> (\<forall>old. schemas r name = Some old \<longrightarrow>
        (\<exists>r' new. SetCompatibility r name mode now = (None, r') \<and> schemas r' name = Some new
           \<and> CreatedAt new = CreatedAt old \<and> UpdatedAt new = now \<and> Compatibility new = mode
           \<and> Version new = Version old \<and> ID new = ID old))"
proof -
  have a: "\<forall>old r'. schemas r name = Some old \<and> Register L r name ty schema opts now = (None, r') \<longrightarrow>
      (\<exists>new. schemas r' name = Some new \<and> CreatedAt new = now \<and> UpdatedAt new = now)
      \<and> versions_at r' name = versions_at r name @ [snapshot old]
      \<and> sv_CreatedAt (snapshot old) = CreatedAt old"
  proof (intro allI impI, elim conjE)
    fix old r'
    assume o: "schemas r name = Some old" and reg: "Register L r name ty schema opts now = (None, r')"
    from Register_ok_schemas[OF reg] have "\<exists>new. schemas r' name = Some new \<and> CreatedAt new = now \<and> UpdatedAt new = now"
      by blast
    moreover from Register_ok_frame(4)[OF reg] o have "versions_at r' name = versions_at r name @ [snapshot old]"
      by (simp add: versions_at_def)
    ultimately show "(\<exists>new. schemas r' name = Some new \<and> CreatedAt new = now \<and> UpdatedAt new = now)
      \<and> versions_at r' name = versions_at r name @ [snapshot old]
      \<and> sv_CreatedAt (snapshot old) = CreatedAt old" by (simp add: snapshot_def)
  qed
  have b: "\<forall>old. schemas r name = Some old \<longrightarrow>
        (\<exists>r' new. SetCompatibility r name mode now = (None, r') \<and> schemas r' name = Some new
           \<and> CreatedAt new = CreatedAt old \<and> UpdatedAt new = now \<and> Compatibility new = mode
           \<and> Version new = Version old \<and> ID new = ID old)"
    by (simp add: SetCompatibility_def)
  from a b show ?thesis by blast
qed

theorem Register_bump_sets_createdAt_to_now_witness:
  "map_option CreatedAt (schemas demo_store2 ''OrderEvent'') = Some 100
   \<and> fst (Register demo_lib demo_store2 ''OrderEvent'' SchemaTypeJSON doc_schema None 200) = None
   \<and> (\<exists>new. schemas (snd (Register demo_lib demo_store2 ''OrderEvent'' SchemaTypeJSON doc_schema
                              None 200)) ''OrderEvent'' = Some new
          \<and> CreatedAt new = 200 \<and> UpdatedAt new = 200)
   \<and> map sv_CreatedAt
        (versions_at (snd (Register demo_lib demo_store2 ''OrderEvent'' SchemaTypeJSON doc_schema
                              None 200)) ''OrderEvent'') = [100]
   \<and> (\<exists>r' new. SetCompatibility demo_store2 ''OrderEvent'' CompatibilityNone 400 = (None, r')
          \<and> schemas r' ''OrderEvent'' = Some new
          \<and> CreatedAt new = 100 \<and> UpdatedAt new = 400)"
proof -
  obtain e r' where reg:
    "Register demo_lib demo_store2 ''OrderEvent'' SchemaTypeJSON doc_schema None 200 = (e, r')"
    by (cases "Register demo_lib demo_store2 ''OrderEvent'' SchemaTypeJSON doc_schema None 200")
  with demo_bump(1) have ok:
    "Register demo_lib demo_store2 ''OrderEvent'' SchemaTypeJSON doc_schema None 200 = (None, r')"
    by simp
  note t = Register_bump_sets_createdAt_to_now[of demo_store2 "''OrderEvent''" demo_lib
      SchemaTypeJSON doc_schema None 200 CompatibilityNone]
  note t400 = Register_bump_sets_createdAt_to_now[of demo_store2 "''OrderEvent''" demo_lib
      SchemaTypeJSON doc_schema None 400 CompatibilityNone]
  from t ok demo_store2_eval(3)
  have a: "(\<exists>new. schemas r' ''OrderEvent'' = Some new \<and> CreatedAt new = 200 \<and> UpdatedAt new = 200)"
    and b: "versions_at r' ''OrderEvent''
              = versions_at demo_store2 ''OrderEvent'' @
                [snapshot \<lparr>ID = 1, Name = ''OrderEvent'', Version = 1, Type = SchemaTypeJSON,
                   Schema = doc_schema, Compatibility = CompatibilityFull, Description = ''orders'',
                   CreatedAt = 100, UpdatedAt = 100\<rparr>]"
    by blast+
  from t400 demo_store2_eval(3)
  have c: "\<exists>r' new. SetCompatibility demo_store2 ''OrderEvent'' CompatibilityNone 400 = (None, r')
          \<and> schemas r' ''OrderEvent'' = Some new \<and> CreatedAt new = 100 \<and> UpdatedAt new = 400"
    by fastforce
  from a b c ok demo_store2_eval show ?thesis
    by (simp add: versions_at_def snapshot_def)
qed

text \<open>
  As worded, C5 asks for \<^verbatim>\<open>CreatedAt\<close> to survive a version bump. In the
  session, the first name is registered at time 100; its re-registration at time
  200 succeeds and leaves it with \<^verbatim>\<open>CreatedAt\<close> 200.
\<close>

theorem Register_bump_createdAt_not_kept:
  "map_option CreatedAt (schemas demo_store2 ''OrderEvent'') = Some 100
   \<and> fst (Register demo_lib demo_store2 ''OrderEvent'' SchemaTypeJSON doc_schema None 200) = None
   \<and> map_option CreatedAt
        (schemas (snd (Register demo_lib demo_store2 ''OrderEvent'' SchemaTypeJSON doc_schema None 200))
           ''OrderEvent'') = Some 200
   \<and> map_option CreatedAt
        (schemas (snd (Register demo_lib demo_store2 ''OrderEvent'' SchemaTypeJSON doc_schema None 200))
           ''OrderEvent'') \<noteq> map_option CreatedAt (schemas demo_store2 ''OrderEvent'')"
  by (simp add: demo_store2_eval demo_bump demo_schema_def)

text \<open>
  \<^bold>\<open>C6.\<close> Every successful \<^verbatim>\<open>Register\<close> on a reachable store computes the
  compatibility mode from its options alone: without options, or with an empty
  compatibility field, the new current schema has mode \<^verbatim>\<open>BACKWARD\<close>,
  whatever the mode of the previous current schema was; otherwise it has the
  mode of the options.
\<close>

theorem Register_recomputes_compatibility:
  assumes "r = run L cs NewSchemaRegistry"
    and "Register L r name schemaType schema opts now = (None, r')"
  shows "\<exists>s. schemas r' name = Some s \<and>
           Compatibility s =
             (case opts of
                None \<Rightarrow> CompatibilityBackward
              | Some opt \<Rightarrow>
                  if opt_Compatibility opt = '''' then CompatibilityBackward
                  else opt_Compatibility opt)"
proof -
  have "defaultCompat r = CompatibilityBackward"
    using assms(1) by (simp add: run_defaultCompat NewSchemaRegistry_def)
  with assms(2) show ?thesis
    by (auto simp: Register_def Let_def split: sum.splits option.splits)
qed

theorem Register_recomputes_compatibility_witness:
  "demo_store2 = run demo_lib (take 2 demo_session) NewSchemaRegistry
   \<and> map_option Compatibility (schemas demo_store2 ''OrderEvent'') = Some CompatibilityFull
   \<and> fst (Register demo_lib demo_store2 ''OrderEvent'' SchemaTypeJSON doc_schema None 200) = None
   \<and> map_option Compatibility
        (schemas (snd (Register demo_lib demo_store2 ''OrderEvent'' SchemaTypeJSON doc_schema None 200))
           ''OrderEvent'') = Some CompatibilityBackward
   \<and> CompatibilityFull \<noteq> CompatibilityBackward"
proof -
  obtain e r' where reg:
    "Register demo_lib demo_store2 ''OrderEvent'' SchemaTypeJSON doc_schema None 200 = (e, r')"
    by (cases "Register demo_lib demo_store2 ''OrderEvent'' SchemaTypeJSON doc_schema None 200")
  with demo_bump(1) have ok:
    "Register demo_lib demo_store2 ''OrderEvent'' SchemaTypeJSON doc_schema None 200 = (None, r')"
    by simp
  from Register_recomputes_compatibility[OF demo_store2_def ok]
  have "map_option Compatibility (schemas r' ''OrderEvent'') = Some CompatibilityBackward"
    by auto
  with ok demo_store2_eval show ?thesis
    by (simp add: demo_store2_def CompatibilityFull_def CompatibilityBackward_def)
qed

text \<open>
  \<^bold>\<open>C7.\<close> If the kind is JSON and the definition does not decode,
  \<^verbatim>\<open>Register\<close> returns an \<open>InvalidDefinition\<close> error and the store it
  was given: the counter, the histories and the current schemas are untouched.
\<close>

theorem Register_rejects_malformed_definition:
  assumes "schemaType = SchemaTypeJSON" and "json_Unmarshal L schema = Inl err"
  shows "Register L r name schemaType schema opts now = (Some (InvalidDefinition err), r)"
  using assms by (simp add: Register_def)

theorem Register_rejects_malformed_definition_witness:
  "json_Unmarshal demo_lib doc_truncated = Inl ''unexpected end of JSON input''
   \<and> Register demo_lib demo_store ''OrderEvent'' SchemaTypeJSON doc_truncated None 500
       = (Some (InvalidDefinition ''unexpected end of JSON input''), demo_store)"
  using Register_rejects_malformed_definition[OF refl demo_decode(5),
      of demo_store "''OrderEvent''" None 500]
  by (simp add: demo_decode)

text \<open>
  \<^bold>\<open>C8.\<close> \<^verbatim>\<open>Validate\<close> returns a failing result, neither an error nor a
  panic, when the name is unknown (a single error, the text of the not-found
  error) and when the schema's kind has no validator (for Protobuf and for Avro
  a single error saying that the kind is not supported yet, under the message
  "unsupported type"; for any other kind than JSON a single error as well).
\<close>

theorem Validate_failing_result_without_validator:
  "(schemas r name = None \<longrightarrow>
      Validate L r name data =
        Inr \<lparr>Valid = False, Errors = [Error (NotFound name)], Message = lit_lookup_failed\<rparr>)
   \<and> (\<forall>s. schemas r name = Some s \<and> Type s = SchemaTypeProtobuf \<longrightarrow>
         Validate L r name data =
           Inr \<lparr>Valid = False, Errors = [lit_protobuf_unsupported],
                Message = lit_unsupported_type\<rparr>)
   \<and> (\<forall>s. schemas r name = Some s \<and> Type s = SchemaTypeAvro \<longrightarrow>
         Validate L r name data =
           Inr \<lparr>Valid = False, Errors = [lit_avro_unsupported],
                Message = lit_unsupported_type\<rparr>)
   \<and> (\<forall>s. schemas r name = Some s \<and> Type s \<noteq> SchemaTypeJSON \<longrightarrow>
         (\<exists>res. Validate L r name data = Inr res \<and> \<not> Valid res \<and> length (Errors res) = 1))"
  by (auto simp: Validate_def Get_def SchemaTypeJSON_def SchemaTypeProtobuf_def SchemaTypeAvro_def)

theorem Validate_failing_result_without_validator_witness:
  "schemas NewSchemaRegistry ''UnknownSchema'' = None
   \<and> Validate demo_lib NewSchemaRegistry ''UnknownSchema'' doc_good =
       Inr \<lparr>Valid = False, Errors = [lit_schema_not_found @ '': UnknownSchema''],
            Message = lit_lookup_failed\<rparr>
   \<and> map_option Type (schemas demo_store ''Audit'') = Some SchemaTypeProtobuf
   \<and> Validate demo_lib demo_store ''Audit'' doc_good =
       Inr \<lparr>Valid = False, Errors = [lit_protobuf_unsupported], Message = lit_unsupported_type\<rparr>
   \<and> map_option Type (schemas demo_store2 ''Audit'') = Some SchemaTypeAvro
   \<and> Validate demo_lib demo_store2 ''Audit'' doc_good =
       Inr \<lparr>Valid = False, Errors = [lit_avro_unsupported], Message = lit_unsupported_type\<rparr>"
  using Validate_failing_result_without_validator[of NewSchemaRegistry "''UnknownSchema''"
          demo_lib doc_good]
        Validate_failing_result_without_validator[of demo_store "''Audit''" demo_lib doc_good]
        Validate_failing_result_without_validator[of demo_store2 "''Audit''" demo_lib doc_good]
  by (simp add: demo_store_eval demo_store2_eval NewSchemaRegistry_def)

text \<open>
  \<^bold>\<open>C9.\<close> \<^verbatim>\<open>Delete\<close> of an existing name succeeds and removes the current
  schema together with the history in one step: afterwards \<^verbatim>\<open>Get\<close>,
  \<^verbatim>\<open>GetVersions\<close> and \<^verbatim>\<open>GetVersion\<close> for every version return the
  not-found error, while the counter and all other names are as before.
  \<^verbatim>\<open>Delete\<close> of an unknown name returns the not-found error and the store
  it was given.
\<close>

theorem Delete_removes_current_and_history:
  "(schemas r name \<noteq> None \<longrightarrow>
      fst (Delete r name) = None
      \<and> Get (snd (Delete r name)) name = Inl (NotFound name)
      \<and> GetVersions (snd (Delete r name)) name = Inl (NotFound name)
      \<and> (\<forall>v. GetVersion (snd (Delete r name)) name v = Inl (NotFound name))
      \<and> schemas (snd (Delete r name)) name = None
      \<and> versions (snd (Delete r name)) name = None
      \<and> nextID (snd (Delete r name)) = nextID r
      \<and> (\<forall>other. other \<noteq> name \<longrightarrow>
            schemas (snd (Delete r name)) other = schemas r other
            \<and> versions (snd (Delete r name)) other = versions r other))
   \<and> (schemas r name = None \<longrightarrow> Delete r name = (Some (NotFound name), r))"
  by (auto simp: Delete_def Get_def GetVersions_def GetVersion_def)

theorem Delete_removes_current_and_history_witness:
  "schemas demo_store ''OrderEvent'' \<noteq> None
   \<and> versions demo_store ''OrderEvent'' \<noteq> None
   \<and> fst (Delete demo_store ''OrderEvent'') = None
   \<and> Get (snd (Delete demo_store ''OrderEvent'')) ''OrderEvent'' = Inl (NotFound ''OrderEvent'')
   \<and> GetVersions (snd (Delete demo_store ''OrderEvent'')) ''OrderEvent''
       = Inl (NotFound ''OrderEvent'')
   \<and> GetVersion (snd (Delete demo_store ''OrderEvent'')) ''OrderEvent'' 1
       = Inl (NotFound ''OrderEvent'')
   \<and> GetVersion (snd (Delete demo_store ''OrderEvent'')) ''OrderEvent'' 2
       = Inl (NotFound ''OrderEvent'')
   \<and> versions (snd (Delete demo_store ''OrderEvent'')) ''OrderEvent'' = None
   \<and> schemas NewSchemaRegistry ''OrderEvent'' = None
   \<and> Delete NewSchemaRegistry ''OrderEvent'' = (Some (NotFound ''OrderEvent''), NewSchemaRegistry)"
  using Delete_removes_current_and_history[of demo_store "''OrderEvent''"]
        Delete_removes_current_and_history[of NewSchemaRegistry "''OrderEvent''"]
  by (simp add: demo_store_eval NewSchemaRegistry_def)

text \<open>
  \<^bold>\<open>C10.\<close> \<^verbatim>\<open>Validate\<close> returns a result for every payload, whatever
  its bytes, provided the decoded definition of the schema stored under the
  name, when that schema is of kind JSON and decodes to a mapping, is
  well-shaped: every entry of its \<^verbatim>\<open>required\<close> array is a string, every
  value of its \<^verbatim>\<open>properties\<close> mapping is an object, and every entry of an
  \<^verbatim>\<open>enum\<close> array declared by a property is a string.
\<close>

theorem Validate_total_on_well_shaped_schema:
  assumes "\<forall>s sm. schemas r name = Some s \<and> Type s = SchemaTypeJSON
             \<and> Unmarshal_map L (Schema s) = Inr sm \<longrightarrow> well_shaped sm"
  shows "\<exists>res. Validate L r name data = Inr res"
proof (cases "schemas r name")
  case None
  then show ?thesis by (simp add: Validate_def Get_def)
next
  case (Some s)
  show ?thesis
  proof (cases "Type s = SchemaTypeJSON")
    case True
    with assms Some have "\<forall>sm. Unmarshal_map L (Schema s) = Inr sm \<longrightarrow> well_shaped sm" by blast
    with validateJSON_total have "\<exists>res. validateJSON L s data = Inr res" by blast
    with Some True show ?thesis by (simp add: Validate_def Get_def)
  next
    case False
    with Some show ?thesis by (simp add: Validate_def Get_def)
  qed
qed

theorem Validate_total_on_well_shaped_schema_witness:
  "schemas demo_store ''OrderEvent'' = Some demo_schema
   \<and> Type demo_schema = SchemaTypeJSON
   \<and> Unmarshal_map demo_lib (Schema demo_schema) = Inr
         [(''required'', JArray [JString ''id'']),
          (''properties'', JObject
             [(''id'', JObject [(''type'', JString ''string''),
                                (''enum'', JArray [JString ''a'', JString ''b''])]),
              (''n'', JObject [(''type'', JString ''number''), (''minimum'', JNumber 0)])])]
   \<and> well_shaped
         [(''required'', JArray [JString ''id'']),
          (''properties'', JObject
             [(''id'', JObject [(''type'', JString ''string''),
                                (''enum'', JArray [JString ''a'', JString ''b''])]),
              (''n'', JObject [(''type'', JString ''number''), (''minimum'', JNumber 0)])])]
   \<and> (\<exists>res. Validate demo_lib demo_store ''OrderEvent'' doc_bad = Inr res)
   \<and> (\<exists>res. Validate demo_lib demo_store ''OrderEvent'' doc_truncated = Inr res)"
proof -
  have s: "Schema demo_schema = doc_schema" "Type demo_schema = SchemaTypeJSON"
    by (simp_all add: demo_schema_def)
  have ws: "\<forall>s sm. schemas demo_store ''OrderEvent'' = Some s \<and> Type s = SchemaTypeJSON
             \<and> Unmarshal_map demo_lib (Schema s) = Inr sm \<longrightarrow> well_shaped sm"
    using demo_well_shaped by (auto simp: demo_store_eval s demo_unmarshal_map)
  from Validate_total_on_well_shaped_schema[OF ws, of doc_bad]
       Validate_total_on_well_shaped_schema[OF ws, of doc_truncated]
       demo_well_shaped
  show ?thesis
    by (simp add: demo_store_eval s demo_unmarshal_map)
qed

end
